theory Spec2Isabelle
  imports Complex_Main
begin

section \<open>Values\<close>

text \<open>
  The engine computes on numpy float64 values and uses NaN as the marker of an empty
  interval or an undefined entry. A value is modelled as a real number or NaN: NaN
  propagates through arithmetic and every ordered comparison with NaN is false, as in
  IEEE 754. Rounding and the infinities are not modelled: arithmetic on numbers is
  exact. The one operation of the engine that raises on overflow, the square of a
  Python float, is modelled with its OverflowError.
\<close>

datatype npfloat = Val real | NaN

fun isnan :: "npfloat \<Rightarrow> bool" where
  "isnan NaN = True"
| "isnan (Val x) = False"

fun flt :: "npfloat \<Rightarrow> npfloat \<Rightarrow> bool" where
  "flt (Val a) (Val b) = (a < b)"
| "flt NaN b = False"
| "flt (Val a) NaN = False"

fun fle :: "npfloat \<Rightarrow> npfloat \<Rightarrow> bool" where
  "fle (Val a) (Val b) = (a \<le> b)"
| "fle NaN b = False"
| "fle (Val a) NaN = False"

fun feq :: "npfloat \<Rightarrow> npfloat \<Rightarrow> bool" where
  "feq (Val a) (Val b) = (a = b)"
| "feq NaN b = False"
| "feq (Val a) NaN = False"

definition fgt :: "npfloat \<Rightarrow> npfloat \<Rightarrow> bool" where
  "fgt a b = flt b a"

definition fge :: "npfloat \<Rightarrow> npfloat \<Rightarrow> bool" where
  "fge a b = fle b a"

fun fadd :: "npfloat \<Rightarrow> npfloat \<Rightarrow> npfloat" where
  "fadd (Val a) (Val b) = Val (a + b)"
| "fadd NaN b = NaN"
| "fadd (Val a) NaN = NaN"

fun fsub :: "npfloat \<Rightarrow> npfloat \<Rightarrow> npfloat" where
  "fsub (Val a) (Val b) = Val (a - b)"
| "fsub NaN b = NaN"
| "fsub (Val a) NaN = NaN"

fun fmul :: "npfloat \<Rightarrow> npfloat \<Rightarrow> npfloat" where
  "fmul (Val a) (Val b) = Val (a * b)"
| "fmul NaN b = NaN"
| "fmul (Val a) NaN = NaN"

fun fneg :: "npfloat \<Rightarrow> npfloat" where
  "fneg (Val a) = Val (- a)"
| "fneg NaN = NaN"

text \<open>\<^verbatim>\<open>np.sqrt\<close>: NaN for NaN and for a negative number.\<close>

fun fsqrt :: "npfloat \<Rightarrow> npfloat" where
  "fsqrt (Val a) = (if a < 0 then NaN else Val (sqrt a))"
| "fsqrt NaN = NaN"

text \<open>
  Python's builtin \<^verbatim>\<open>max(a, b)\<close> keeps \<open>a\<close> unless \<open>b > a\<close>, and \<^verbatim>\<open>min(a, b)\<close> keeps
  \<open>a\<close> unless \<open>b < a\<close>; with a NaN argument the comparison is false and the first
  argument is returned.
\<close>

definition pymax :: "npfloat \<Rightarrow> npfloat \<Rightarrow> npfloat" where
  "pymax a b = (if fgt b a then b else a)"

definition pymin :: "npfloat \<Rightarrow> npfloat \<Rightarrow> npfloat" where
  "pymin a b = (if flt b a then b else a)"

text \<open>A value that may be Python's \<^verbatim>\<open>None\<close>.\<close>

datatype pyval = PyNone | PyFloat npfloat

text \<open>Storing into a float array: numpy stores \<^verbatim>\<open>None\<close> as NaN.\<close>

fun to_float :: "pyval \<Rightarrow> npfloat" where
  "to_float PyNone = NaN"
| "to_float (PyFloat v) = v"

datatype error = AssertionError | IndexError | ValueError | NotImplementedError | OverflowError

text \<open>
  \<^verbatim>\<open>v ** 2\<close> on a Python float raises OverflowError when the result leaves the float
  range, that is when the square rounds to infinity: from \<open>2^1024 - 2^970\<close> on, half
  a unit in the last place above the largest float. The square of NaN is NaN.
\<close>

definition float_overflow_bound :: real where
  "float_overflow_bound = 2 ^ 1024 - 2 ^ 970"

definition py_square :: "npfloat \<Rightarrow> error + npfloat" where
  "py_square v =
     (case v of
        Val x \<Rightarrow> if float_overflow_bound \<le> x * x then Inl OverflowError else Inr (Val (x * x))
      | NaN \<Rightarrow> Inr NaN)"

text \<open>Reading \<^verbatim>\<open>xs[i]\<close> for \<open>i \<ge> 0\<close>: out of range raises IndexError.\<close>

definition item :: "'a list \<Rightarrow> nat \<Rightarrow> error + 'a" where
  "item xs i = (if i < length xs then Inr (xs ! i) else Inl IndexError)"

section \<open>Construction of the stage oracle (solverwrapper.py)\<close>

text \<open>
  \<^verbatim>\<open>ConstraintType\<close> is declared outside the given sources; the engine only compares
  against \<^verbatim>\<open>CanonicalConic\<close>. A constraint is seen through its type and its number of
  extra variables, a path through its interval.
\<close>

datatype ConstraintType = CanonicalLinear | CanonicalConic

record constraint =
  get_constraint_type :: ConstraintType
  get_no_extra_vars :: nat

record path =
  get_path_interval :: "npfloat \<times> npfloat"

text \<open>The attributes \<^verbatim>\<open>SolverWrapper.__init__\<close> sets that the engine reads.\<close>

record wrapper_attrs =
  path_discretization :: "npfloat list"
  get_no_stages :: nat
  get_deltas :: "npfloat list"
  get_no_vars :: nat

text \<open>\<^verbatim>\<open>a[1:] - a[:-1]\<close>, elementwise.\<close>

definition grid_deltas :: "npfloat list \<Rightarrow> npfloat list" where
  "grid_deltas a = map (\<lambda>(hi, lo). fsub hi lo) (zip (tl a) (butlast a))"

text \<open>
  \<^verbatim>\<open>for i in range(self.N): assert path_discretization[i + 1] > path_discretization[i]\<close>,
  as the list of stages still to check.
\<close>

fun check_increasing :: "npfloat list \<Rightarrow> nat list \<Rightarrow> bool" where
  "check_increasing a [] = True"
| "check_increasing a (i # is) = (if fgt (a ! (i + 1)) (a ! i) then check_increasing a is else False)"

text \<open>
  \<^verbatim>\<open>SolverWrapper.__init__\<close>. With an empty grid \<^verbatim>\<open>path_discretization[0]\<close> raises
  IndexError (line 39); the three assertions follow in the source's order. The calls
  into the constraints (\<^verbatim>\<open>compute_constraint_params\<close>) are opaque and not modelled.
\<close>

definition SolverWrapper_init :: "constraint list \<Rightarrow> path \<Rightarrow> npfloat list \<Rightarrow> error + wrapper_attrs" where
  "SolverWrapper_init constraint_list p grid =
    (if grid = [] then Inl IndexError
     else if \<not> feq (fst (get_path_interval p)) (hd grid) then Inl AssertionError
     else if \<not> feq (snd (get_path_interval p)) (last grid) then Inl AssertionError
     else if \<not> check_increasing grid [0 ..< length grid - 1] then Inl AssertionError
     else Inr \<lparr> path_discretization = grid,
                get_no_stages = length grid - 1,
                get_deltas = grid_deltas grid,
                get_no_vars = 2 + sum_list (map get_no_extra_vars constraint_list) \<rparr>)"

section \<open>Selection of the backend (ReachabilityAlgorithm.__init__)\<close>

datatype backend = cvxpyWrapper | qpOASESSolverWrapper | hotqpOASESSolverWrapper | ecosWrapper

text \<open>\<^verbatim>\<open>str.lower\<close> on ASCII strings.\<close>

definition lower_char :: "char \<Rightarrow> char" where
  "lower_char c = (let n = (of_char c :: nat) in if 65 \<le> n \<and> n \<le> 90 then char_of (n + 32) else c)"

definition lower :: "string \<Rightarrow> string" where
  "lower s = map lower_char s"

text \<open>Lines 47-50: the loop that sets \<^verbatim>\<open>has_conic\<close>.\<close>

fun has_conic_loop :: "constraint list \<Rightarrow> bool \<Rightarrow> bool" where
  "has_conic_loop [] b = b"
| "has_conic_loop (c # cs) b =
     has_conic_loop cs (if get_constraint_type c = CanonicalConic then True else b)"

definition has_conic :: "constraint list \<Rightarrow> bool" where
  "has_conic cs = has_conic_loop cs False"

text \<open>Lines 52-63: the name after automatic choice, or the assertion on a given name.\<close>

definition choose_name :: "bool \<Rightarrow> string option \<Rightarrow> error + string" where
  "choose_name conic solver_wrapper =
    (case solver_wrapper of
       None \<Rightarrow> Inr (if conic then ''ecos'' else ''qpOASES'')
     | Some name \<Rightarrow>
         if conic then
           (if lower name \<in> set [''cvxpy'', ''ecos''] then Inr name else Inl AssertionError)
         else
           (if lower name \<in> set [''cvxpy'', ''qpoases'', ''ecos'', ''hotqpoases'']
            then Inr name else Inl AssertionError))"

text \<open>Lines 66-75: the class instantiated for a name.\<close>

definition select_class :: "string \<Rightarrow> error + backend" where
  "select_class name =
    (if lower name = ''cvxpy'' then Inr cvxpyWrapper
     else if lower name = ''qpoases'' then Inr qpOASESSolverWrapper
     else if lower name = ''hotqpoases'' then Inr hotqpOASESSolverWrapper
     else if lower name = ''ecos'' then Inr ecosWrapper
     else Inl NotImplementedError)"

definition select_backend :: "constraint list \<Rightarrow> string option \<Rightarrow> error + backend" where
  "select_backend constraint_list solver_wrapper =
    (case choose_name (has_conic constraint_list) solver_wrapper of
       Inl e \<Rightarrow> Inl e
     | Inr name \<Rightarrow> select_class name)"

text \<open>
  The backends the engine accepts for a problem with conic constraints (line 61) and
  the quadratic-programming backend of the automatic choice (line 57).
\<close>

definition conic_capable :: "backend \<Rightarrow> bool" where
  "conic_capable b = (b = cvxpyWrapper \<or> b = ecosWrapper)"

section \<open>The stage oracle and its session\<close>

text \<open>
  The arguments of one call \<^verbatim>\<open>solve_stagewise_optim(i, H, g, x_min, x_max, x_next_min,
  x_next_max)\<close>; \<^verbatim>\<open>None\<close> for \<open>H\<close> or a bound is \<open>None\<close>.
\<close>

datatype solve_args = Args
  (arg_i: nat)
  (arg_H: "npfloat list list option")
  (arg_g: "npfloat list")
  (arg_x_min: "npfloat option")
  (arg_x_max: "npfloat option")
  (arg_x_next_min: "npfloat option")
  (arg_x_next_max: "npfloat option")

text \<open>
  The solver wrapper the engine holds: the attributes of the base class and the three
  operations a backend implements. \<^verbatim>\<open>solve_stagewise_optim\<close> is abstract in the base
  class and the backends are outside the given sources, so the operations are
  parameters. A backend may keep state between calls (warm start): every operation
  takes the backend's state \<open>'w\<close> and returns the new one. A solve returns an array
  and never raises.
\<close>

record 'w solver_wrapper = wrapper_attrs +
  solve_stagewise_optim :: "'w \<Rightarrow> solve_args \<Rightarrow> npfloat list \<times> 'w"
  setup_solver :: "'w \<Rightarrow> 'w"
  close_solver :: "'w \<Rightarrow> 'w"

text \<open>
  The operations the engine invokes on the wrapper, in order, are recorded beside the
  backend's state.
\<close>

datatype event = Setup | Solve solve_args | Close

type_synonym 'w sess = "'w \<times> event list"

definition call_setup :: "'w solver_wrapper \<Rightarrow> 'w sess \<Rightarrow> 'w sess" where
  "call_setup sw s = (setup_solver sw (fst s), snd s @ [Setup])"

definition call_close :: "'w solver_wrapper \<Rightarrow> 'w sess \<Rightarrow> 'w sess" where
  "call_close sw s = (close_solver sw (fst s), snd s @ [Close])"

definition call_solve :: "'w solver_wrapper \<Rightarrow> solve_args \<Rightarrow> 'w sess \<Rightarrow> npfloat list \<times> 'w sess" where
  "call_solve sw a s =
    (case solve_stagewise_optim sw (fst s) a of (r, w') \<Rightarrow> (r, (w', snd s @ [Solve a])))"

text \<open>
  An entry point either raises or returns; both outcomes carry the session as it is
  at that moment.
\<close>

type_synonym ('a, 'w) outcome = "(error \<times> 'w sess) + ('a \<times> 'w sess)"

fun session_of :: "('a, 'w) outcome \<Rightarrow> 'w sess" where
  "session_of (Inl (e, s)) = s"
| "session_of (Inr (r, s)) = s"

section \<open>The reachability engine (reachability_algorithm.py)\<close>

text \<open>
  The engine's own stage count \<^verbatim>\<open>self._N\<close> is set by a base class outside the given
  sources; the wrapper is built from the engine's gridpoints (lines 66-73), so both
  counts are one less than the number of gridpoints and the model reads both from
  \<open>get_no_stages\<close>.
\<close>

type_synonym interval = "npfloat \<times> npfloat"

definition zeros :: "nat \<Rightarrow> npfloat list" where
  "zeros n = replicate n (Val 0)"

text \<open>
  \<^verbatim>\<open>g = np.zeros(nV); g[0] = a; g[1] = b\<close>: IndexError when \<open>nV < 2\<close>.
\<close>

definition cost_vector :: "nat \<Rightarrow> npfloat \<Rightarrow> npfloat \<Rightarrow> error + npfloat list" where
  "cost_vector nV a b = (if nV < 2 then Inl IndexError else Inr ((zeros nV)[0 := a, 1 := b]))"

text \<open>\<^verbatim>\<open>if A[i, 0] < 0: A[i, 0] = 0\<close> on one row of an array of intervals.\<close>

definition clamp_low :: "interval \<Rightarrow> interval" where
  "clamp_low r = (if flt (fst r) (Val 0) then (Val 0, snd r) else r)"

definition clamp_row :: "interval list \<Rightarrow> nat \<Rightarrow> interval list" where
  "clamp_row A i = (if flt (fst (A ! i)) (Val 0) then A[i := (Val 0, snd (A ! i))] else A)"

text \<open>\<^verbatim>\<open>np.isnan(r).any()\<close> on one row and on a whole array.\<close>

definition nan_any :: "interval \<Rightarrow> bool" where
  "nan_any r = (isnan (fst r) \<or> isnan (snd r))"

definition isnan_any :: "interval list \<Rightarrow> bool" where
  "isnan_any A = list_ex nan_any A"

subsection \<open>compute_feasible_sets\<close>

text \<open>
  Lines 96-101, over the stages \<open>range(N + 1)\<close> still to visit. The rows written are
  inside \<open>X\<close> (it has \<open>N + 1\<close> rows); reading entry 1 of a result raises IndexError
  when the result is shorter.
\<close>

fun feasible_loop ::
  "'w solver_wrapper \<Rightarrow> npfloat list list \<Rightarrow> npfloat list \<Rightarrow> real \<Rightarrow> nat list \<Rightarrow>
   interval list \<Rightarrow> 'w sess \<Rightarrow> (interval list, 'w) outcome" where
  "feasible_loop sw Hzero g_lower L [] X s = Inr (X, s)"
| "feasible_loop sw Hzero g_lower L (i # is) X s =
    (case call_solve sw (Args i (Some Hzero) g_lower
            (Some (Val (- L))) (Some (Val L)) (Some (Val (- L))) (Some (Val L))) s of
       (r1, s1) \<Rightarrow>
      (case item r1 1 of
         Inl e \<Rightarrow> Inl (e, s1)
       | Inr lo \<Rightarrow>
          (case call_solve sw (Args i (Some Hzero) (map fneg g_lower)
                  (Some (Val (- L))) (Some (Val L)) (Some (Val (- L))) (Some (Val L))) s1 of
             (r2, s2) \<Rightarrow>
            (case item r2 1 of
               Inl e \<Rightarrow> Inl (e, s2)
             | Inr hi \<Rightarrow>
                 feasible_loop sw Hzero g_lower L is
                   ((X[i := (lo, snd (X ! i))])[i := (lo, hi)]) s2))))"

text \<open>Lines 103-105, over the rows still to visit.\<close>

fun clamp_loop :: "nat list \<Rightarrow> interval list \<Rightarrow> interval list" where
  "clamp_loop [] X = X"
| "clamp_loop (i # is) X = clamp_loop is (clamp_row X i)"

text \<open>
  \<^verbatim>\<open>compute_feasible_sets\<close> up to the teardown (lines 88-102): the array as the solves
  leave it. \<open>LARGE\<close> is a numeric constant declared outside the given sources and is
  a parameter.
\<close>

definition feasible_sweep ::
  "'w solver_wrapper \<Rightarrow> real \<Rightarrow> 'w sess \<Rightarrow> (interval list, 'w) outcome" where
  "feasible_sweep sw LARGE s =
    (let nV = get_no_vars sw;
         Hzero = replicate nV (zeros nV)
     in case cost_vector nV (Val (1 / 10 ^ 9)) (Val 1) of
          Inl e \<Rightarrow> Inl (e, s)
        | Inr g_lower \<Rightarrow>
           (let X = replicate (get_no_stages sw + 1) (Val 0, Val 0)
            in case feasible_loop sw Hzero g_lower LARGE [0 ..< get_no_stages sw + 1] X
                      (call_setup sw s) of
                 Inl e \<Rightarrow> Inl e
               | Inr (X1, s1) \<Rightarrow> Inr (X1, call_close sw s1)))"

text \<open>\<^verbatim>\<open>compute_feasible_sets\<close>: the sweep, then the clamp of lines 103-106.\<close>

definition compute_feasible_sets ::
  "'w solver_wrapper \<Rightarrow> real \<Rightarrow> 'w sess \<Rightarrow> (interval list, 'w) outcome" where
  "compute_feasible_sets sw LARGE s =
    (case feasible_sweep sw LARGE s of
       Inl e \<Rightarrow> Inl e
     | Inr (X1, s1) \<Rightarrow> Inr (clamp_loop [0 ..< get_no_stages sw + 1] X1, s1))"

subsection \<open>compute_controllable_sets\<close>

text \<open>
  \<^verbatim>\<open>_one_step(i, K_next)\<close>. The stage index is a natural number, so \<open>i < 0\<close> cannot
  hold. The first solve and the read of its entry 1 complete before the second solve
  is issued.
\<close>

definition one_step ::
  "'w solver_wrapper \<Rightarrow> nat \<Rightarrow> interval \<Rightarrow> 'w sess \<Rightarrow> (interval, 'w) outcome" where
  "one_step sw i K_next s =
    (if nan_any K_next \<or> i > get_no_stages sw then Inr ((NaN, NaN), s)
     else case cost_vector (get_no_vars sw) (Val (1 / 10 ^ 9)) (Val (- 1)) of
        Inl e \<Rightarrow> Inl (e, s)
      | Inr g_upper \<Rightarrow>
         (case call_solve sw (Args i None g_upper None None
                  (Some (fst K_next)) (Some (snd K_next))) s of
            (r1, s1) \<Rightarrow>
           (case item r1 1 of
              Inl e \<Rightarrow> Inl (e, s1)
            | Inr x_upper \<Rightarrow>
               (case call_solve sw (Args i None (map fneg g_upper) None None
                        (Some (fst K_next)) (Some (snd K_next))) s1 of
                  (r2, s2) \<Rightarrow>
                 (case item r2 1 of
                    Inl e \<Rightarrow> Inl (e, s2)
                  | Inr x_lower \<Rightarrow> Inr ((x_lower, x_upper), s2))))))"

text \<open>
  Lines 129-132: \<open>controllable_loop sw n K s\<close> runs the stages \<open>n - 1, \<dots>, 0\<close>. Rows
  \<open>i\<close> and \<open>i + 1\<close> are inside \<open>K\<close>, which has \<open>N + 1\<close> rows.
\<close>

fun controllable_loop ::
  "'w solver_wrapper \<Rightarrow> nat \<Rightarrow> interval list \<Rightarrow> 'w sess \<Rightarrow> (interval list, 'w) outcome" where
  "controllable_loop sw 0 K s = Inr (K, s)"
| "controllable_loop sw (Suc i) K s =
    (case one_step sw i (K ! (i + 1)) s of
       Inl e \<Rightarrow> Inl e
     | Inr (res, s1) \<Rightarrow> controllable_loop sw i (clamp_row (K[i := res]) i) s1)"

text \<open>
  \<^verbatim>\<open>compute_controllable_sets\<close>. Line 126 squares \<open>sdmin\<close>, then \<open>sdmax\<close>, before the
  setup; either square may raise OverflowError.
\<close>

definition compute_controllable_sets ::
  "'w solver_wrapper \<Rightarrow> npfloat \<Rightarrow> npfloat \<Rightarrow> 'w sess \<Rightarrow> (interval list, 'w) outcome" where
  "compute_controllable_sets sw sdmin sdmax s =
    (if \<not> (fle sdmin sdmax \<and> fle (Val 0) sdmin) then Inl (AssertionError, s)
     else case py_square sdmin of
        Inl e \<Rightarrow> Inl (e, s)
      | Inr lo \<Rightarrow>
         (case py_square sdmax of
            Inl e \<Rightarrow> Inl (e, s)
          | Inr hi \<Rightarrow>
             (let N = get_no_stages sw;
                  K = (replicate (N + 1) (Val 0, Val 0))[N := (lo, hi)]
              in case controllable_loop sw N K (call_setup sw s) of
                   Inl e \<Rightarrow> Inl e
                 | Inr (K1, s1) \<Rightarrow> Inr (K1, call_close sw s1))))"

subsection \<open>compute_parameterization\<close>

text \<open>
  What \<^verbatim>\<open>compute_parameterization\<close> returns: \<^verbatim>\<open>(None, None, None)\<close> or the arrays
  \<^verbatim>\<open>(sdd_vec, sd_vec, v_vec)\<close>.
\<close>

datatype param_result = NoneTriple | Arrays "npfloat list" "npfloat list" "npfloat list list"

text \<open>
  \<^verbatim>\<open>v_vec[i] = vs\<close> for a row of \<open>k\<close> entries: numpy takes \<open>k\<close> values, or repeats a
  single one, and raises ValueError for any other length.
\<close>

definition assign_row :: "nat \<Rightarrow> pyval list \<Rightarrow> error + npfloat list" where
  "assign_row k vs =
    (if length vs = k then Inr (map to_float vs)
     else if length vs = 1 then Inr (replicate k (to_float (hd vs)))
     else Inl ValueError)"

text \<open>
  Lines 193-206, over the stages \<open>range(N)\<close> still to visit. \<^verbatim>\<open>_forward_step\<close> is a
  method the subclasses supply; it is the parameter \<open>fstep\<close>, which may use the
  session. Rows \<open>i + 1\<close> of \<open>K\<close> and \<open>xs\<close> and row \<open>i\<close> of \<open>us\<close> and \<open>v_vec\<close> are
  inside the arrays; \<^verbatim>\<open>optim_res[0]\<close> and \<^verbatim>\<open>deltas[i]\<close> raise IndexError out of range.
\<close>

fun forward_loop ::
  "'w solver_wrapper \<Rightarrow> (nat \<Rightarrow> npfloat \<Rightarrow> interval \<Rightarrow> 'w sess \<Rightarrow> pyval list \<times> 'w sess) \<Rightarrow>
   interval list \<Rightarrow> npfloat list \<Rightarrow> nat list \<Rightarrow> npfloat list \<Rightarrow> npfloat list \<Rightarrow>
   npfloat list list \<Rightarrow> 'w sess \<Rightarrow> (npfloat list \<times> npfloat list \<times> npfloat list list, 'w) outcome" where
  "forward_loop sw fstep K deltas [] us xs v_vec s = Inr ((us, xs, v_vec), s)"
| "forward_loop sw fstep K deltas (i # is) us xs v_vec s =
    (case fstep i (xs ! i) (K ! (i + 1)) s of
       (optim_res, s1) \<Rightarrow>
      (case item optim_res 0 of
         Inl e \<Rightarrow> Inl (e, s1)
       | Inr r0 \<Rightarrow>
          if r0 = PyNone then
            forward_loop sw fstep K deltas is
              (us[i := NaN]) (xs[i + 1 := NaN])
              (v_vec[i := replicate (get_no_vars sw - 2) NaN]) s1
          else
            (let us1 = us[i := to_float r0] in
             case item deltas i of
               Inl e \<Rightarrow> Inl (e, s1)
             | Inr d \<Rightarrow>
                (let x_next = pymin (snd (K ! (i + 1)))
                       (pymax (fst (K ! (i + 1)))
                          (fadd (xs ! i) (fmul (fmul (Val 2) d) (us1 ! i))))
                 in case assign_row (get_no_vars sw - 2) (drop 2 optim_res) of
                      Inl e \<Rightarrow> Inl (e, s1)
                    | Inr row \<Rightarrow>
                        forward_loop sw fstep K deltas is
                          us1 (xs[i + 1 := x_next]) (v_vec[i := row]) s1))))"

text \<open>
  \<^verbatim>\<open>compute_parameterization\<close> up to the teardown (lines 171-207): \<open>None\<close> for the
  early return \<^verbatim>\<open>(None, None, None)\<close>, otherwise the arrays \<open>(us, xs, v_vec)\<close>.
  \<open>SMALL\<close> is a numeric constant declared outside the given sources and is a
  parameter. \<^verbatim>\<open>sd_start ** 2\<close> (line 178) is evaluated after the test of \<open>K\<close> for NaN
  and may raise OverflowError. \<^verbatim>\<open>np.zeros((N, nV - 2))\<close> raises ValueError for a
  negative dimension. \<open>K\<close> has \<open>N + 1 \<ge> 1\<close> rows, so \<open>K[0]\<close> is inside.
\<close>

definition parameterization_profile ::
  "'w solver_wrapper \<Rightarrow> real \<Rightarrow>
   (nat \<Rightarrow> npfloat \<Rightarrow> interval \<Rightarrow> 'w sess \<Rightarrow> pyval list \<times> 'w sess) \<Rightarrow>
   npfloat \<Rightarrow> npfloat \<Rightarrow> 'w sess \<Rightarrow>
   ((npfloat list \<times> npfloat list \<times> npfloat list list) option, 'w) outcome" where
  "parameterization_profile sw SMALL fstep sd_start sd_end s =
    (if \<not> (fge sd_end (Val 0) \<and> fge sd_start (Val 0)) then Inl (AssertionError, s)
     else case compute_controllable_sets sw sd_end sd_end s of
        Inl e \<Rightarrow> Inl e
      | Inr (K, s1) \<Rightarrow>
          if isnan_any K then Inr (None, s1)
          else
            (case py_square sd_start of
               Inl e \<Rightarrow> Inl (e, s1)
             | Inr x_start \<Rightarrow>
                 if flt (fadd x_start (Val SMALL)) (fst (K ! 0))
                    \<or> flt (fadd (snd (K ! 0)) (Val SMALL)) x_start
                 then Inr (None, s1)
                 else
                   (let N = get_no_stages sw;
                        deltas = get_deltas sw;
                        xs = (zeros (N + 1))[0 := x_start];
                        us = zeros N
                    in if get_no_vars sw < 2 then Inl (ValueError, s1)
                       else
                         (let v_vec = replicate N (zeros (get_no_vars sw - 2))
                          in case forward_loop sw fstep K deltas [0 ..< N] us xs v_vec
                                    (call_setup sw s1) of
                               Inl e \<Rightarrow> Inl e
                             | Inr (r, s2) \<Rightarrow> Inr (Some r, call_close sw s2)))))"

text \<open>
  \<^verbatim>\<open>compute_parameterization\<close>: lines 208-210 turn the arrays into
  \<^verbatim>\<open>(sdd_vec, sd_vec, v_vec)\<close> with \<^verbatim>\<open>sd_vec = np.sqrt(xs)\<close>.
\<close>

definition compute_parameterization ::
  "'w solver_wrapper \<Rightarrow> real \<Rightarrow>
   (nat \<Rightarrow> npfloat \<Rightarrow> interval \<Rightarrow> 'w sess \<Rightarrow> pyval list \<times> 'w sess) \<Rightarrow>
   npfloat \<Rightarrow> npfloat \<Rightarrow> 'w sess \<Rightarrow> (param_result, 'w) outcome" where
  "compute_parameterization sw SMALL fstep sd_start sd_end s =
    (case parameterization_profile sw SMALL fstep sd_start sd_end s of
       Inl e \<Rightarrow> Inl e
     | Inr (None, s1) \<Rightarrow> Inr (NoneTriple, s1)
     | Inr (Some (us, xs, v_vec), s1) \<Rightarrow> Inr (Arrays us (map fsqrt xs) v_vec, s1))"

text \<open>
  Modelled from the spec: \<^verbatim>\<open>_forward_step\<close> is called by \<^verbatim>\<open>compute_parameterization\<close>
  and defined outside the given sources. Section 4.5, step 3: one stage solve at \<open>i\<close>
  with \<open>x_min = x_max = xs[i]\<close>, the bounds of \<open>K[i+1]\<close> on the next state, no quadratic
  cost and a linear cost selecting the maximal control (the parameter \<open>g\<close>, which the
  spec does not give in numbers); the solve's array is handed back as it is.
\<close>

definition forward_step ::
  "'w solver_wrapper \<Rightarrow> (nat \<Rightarrow> npfloat list) \<Rightarrow> nat \<Rightarrow> npfloat \<Rightarrow> interval \<Rightarrow> 'w sess \<Rightarrow>
   pyval list \<times> 'w sess" where
  "forward_step sw g i x K_next s =
    (case call_solve sw (Args i None (g i) (Some x) (Some x)
             (Some (fst K_next)) (Some (snd K_next))) s of
       (r, s1) \<Rightarrow> (map PyFloat r, s1))"

section \<open>The session protocol\<close>

text \<open>
  \<open>track es b\<close> follows a sequence of wrapper operations from the state \<open>b\<close> (whether
  a session is open): a setup opens a session when none is open, a solve needs an open
  session, a teardown closes the open session. \<open>None\<close> is a violation.
\<close>

fun track :: "event list \<Rightarrow> bool \<Rightarrow> bool option" where
  "track [] b = Some b"
| "track (Setup # es) b = (if b then None else track es True)"
| "track (Solve a # es) b = (if b then track es True else None)"
| "track (Close # es) b = (if b then track es False else None)"

text \<open>A sequence of complete sessions: every solve inside one, every session torn down.\<close>

definition bracketed :: "event list \<Rightarrow> bool" where
  "bracketed es = (track es False = Some False)"

text \<open>A wrapper as \<^verbatim>\<open>SolverWrapper.__init__\<close> leaves it, with a backend whose solves
  return one value per variable.\<close>

definition wf_wrapper :: "'w solver_wrapper \<Rightarrow> bool" where
  "wf_wrapper sw =
    (2 \<le> get_no_vars sw \<and> length (get_deltas sw) = get_no_stages sw \<and>
     (\<forall>w a. length (fst (solve_stagewise_optim sw w a)) = get_no_vars sw))"

section \<open>Notions used in the statements\<close>

fun is_solve :: "event \<Rightarrow> bool" where
  "is_solve (Solve a) = True"
| "is_solve Setup = False"
| "is_solve Close = False"

text \<open>What an entry point returns, if it returns.\<close>

fun returned :: "('a, 'w) outcome \<Rightarrow> 'a option" where
  "returned (Inr (r, s)) = Some r"
| "returned (Inl (e, s)) = None"

text \<open>What an entry point raises, if it raises.\<close>

fun raised :: "('a, 'w) outcome \<Rightarrow> error option" where
  "raised (Inl (e, s)) = Some e"
| "raised (Inr (r, s)) = None"

text \<open>A value lies within an interval.\<close>

definition inside :: "interval \<Rightarrow> npfloat \<Rightarrow> bool" where
  "inside r v = (fle (fst r) v \<and> fle v (snd r))"

text \<open>
  The test of line 179: the start state lies below \<open>K[0]\<close> or above it by more than
  \<open>SMALL\<close>.
\<close>

definition start_rejected :: "real \<Rightarrow> interval list \<Rightarrow> npfloat \<Rightarrow> bool" where
  "start_rejected SMALL K x_start =
     (flt (fadd x_start (Val SMALL)) (fst (K ! 0)) \<or> flt (fadd (snd (K ! 0)) (Val SMALL)) x_start)"

text \<open>
  What the forward pass leaves in \<open>xs[i + 1]\<close>: the undefined marker, after a forward
  step whose first entry was \<^verbatim>\<open>None\<close>, or a value that lies within \<open>K[i + 1]\<close> when that
  interval has its bounds in order.
\<close>

definition stage_ok ::
  "(nat \<Rightarrow> npfloat \<Rightarrow> interval \<Rightarrow> 'w sess \<Rightarrow> pyval list \<times> 'w sess) \<Rightarrow>
   interval list \<Rightarrow> nat \<Rightarrow> npfloat \<Rightarrow> bool" where
  "stage_ok fstep K i v =
     (((\<exists>x t. item (fst (fstep i x (K ! (i + 1)) t)) 0 = Inr PyNone) \<and> v = NaN) \<or>
      (fle (fst (K ! (i + 1))) (snd (K ! (i + 1))) \<longrightarrow> inside (K ! (i + 1)) v))"

text \<open>
  What the session protocol needs of a \<^verbatim>\<open>_forward_step\<close>: on the wrapper it invokes
  solves only, and it hands back one value per variable.
\<close>

definition issues_only_solves ::
  "'w solver_wrapper \<Rightarrow> (nat \<Rightarrow> npfloat \<Rightarrow> interval \<Rightarrow> 'w sess \<Rightarrow> pyval list \<times> 'w sess) \<Rightarrow> bool" where
  "issues_only_solves sw fstep =
     (\<forall>i x Kn t. length (fst (fstep i x Kn t)) = get_no_vars sw \<and>
        (\<exists>ss. snd (snd (fstep i x Kn t)) = snd t @ ss \<and> (\<forall>e \<in> set ss. is_solve e)))"

section \<open>A table-driven backend\<close>

text \<open>
  A backend for two variables \<open>(u, x)\<close>, used to run the engine on concrete inputs.
  Stage \<open>i\<close> admits the states of \<open>tab i\<close>: a solve that minimises or maximises \<open>x\<close>
  (the sign of \<open>g[1]\<close>) returns the lower or upper end with \<open>u = 0\<close>. A solve with no
  quadratic cost and \<open>x\<close> pinned, as the forward pass issues it, returns the control
  \<open>u\<close> and the pinned state, or fails with an array of NaN when \<open>u\<close> is NaN. The
  backend's state counts the solves.
\<close>

definition table_solve ::
  "(nat \<Rightarrow> interval) \<Rightarrow> npfloat \<Rightarrow> nat \<Rightarrow> solve_args \<Rightarrow> npfloat list \<times> nat" where
  "table_solve tab u w a =
    (case (arg_H a, arg_x_min a) of
       (None, Some x) \<Rightarrow> (if isnan u then [NaN, NaN] else [u, x], w + 1)
     | _ \<Rightarrow> (if flt (Val 0) (arg_g a ! 1) then [Val 0, fst (tab (arg_i a))]
             else [Val 0, snd (tab (arg_i a))], w + 1))"

definition table_wrapper :: "nat \<Rightarrow> (nat \<Rightarrow> interval) \<Rightarrow> npfloat \<Rightarrow> nat solver_wrapper" where
  "table_wrapper n tab u =
    \<lparr> path_discretization = map (\<lambda>k. Val (real k)) [0 ..< n + 1],
      get_no_stages = n,
      get_deltas = replicate n (Val 1),
      get_no_vars = 2,
      solve_stagewise_optim = table_solve tab u,
      setup_solver = (\<lambda>w. w),
      close_solver = (\<lambda>w. w) \<rparr>"

text \<open>
  A backend on one stage that never raises and returns an array of one entry from
  every solve, one entry short of the two variables.
\<close>

definition short_wrapper :: "nat solver_wrapper" where
  "short_wrapper =
    \<lparr> path_discretization = [Val 0, Val 1],
      get_no_stages = 1,
      get_deltas = [Val 1],
      get_no_vars = 2,
      solve_stagewise_optim = (\<lambda>w a. ([Val 0], w + 1)),
      setup_solver = (\<lambda>w. w),
      close_solver = (\<lambda>w. w) \<rparr>"

text \<open>The linear cost of the forward step on two variables: maximise \<open>u\<close>.\<close>

definition g_max_u :: "nat \<Rightarrow> npfloat list" where
  "g_max_u i = [Val (- 1), Val 0]"

section \<open>Auxiliary facts\<close>

lemma float_overflow_bound_large: "1000000 < float_overflow_bound"
  by (simp add: float_overflow_bound_def)

lemma py_square_small: "x * x \<le> 1000000 \<Longrightarrow> py_square (Val x) = Inr (Val (x * x))"
  using float_overflow_bound_large by (simp add: py_square_def)

lemma py_square_huge: "py_square (Val (10 ^ 200)) = Inl OverflowError"
proof -
  have "float_overflow_bound \<le> 10 ^ 200 * 10 ^ 200"
    by (simp add: float_overflow_bound_def)
  then show ?thesis by (simp add: py_square_def)
qed

lemma py_square_Inr: "py_square v = Inr y \<Longrightarrow> y = fmul v v"
  by (cases v) (auto simp: py_square_def split: if_splits)

lemma py_square_Inl: "py_square v = Inl e \<Longrightarrow> e = OverflowError"
  by (cases v) (auto simp: py_square_def split: if_splits)

lemma clamp_row_update:
  "i < length K \<Longrightarrow> clamp_row (K[i := res]) i = K[i := clamp_low res]"
  by (simp add: clamp_row_def clamp_low_def)

lemma one_step_empty:
  "nan_any Kn \<Longrightarrow> one_step sw i Kn s = Inr ((NaN, NaN), s)"
  by (simp add: one_step_def)

lemma clamp_low_nan: "isnan (fst r) \<Longrightarrow> clamp_low r = r"
  by (cases r; cases "fst r") (auto simp: clamp_low_def)

lemma controllable_loop_rows:
  "controllable_loop sw n K s = Inr (K', s') \<Longrightarrow> n < length K \<Longrightarrow>
     length K' = length K \<and> (\<forall>j. n \<le> j \<longrightarrow> K' ! j = K ! j) \<and>
     (\<forall>i<n. \<exists>s1 s2 res. one_step sw i (K' ! (i + 1)) s1 = Inr (res, s2) \<and> K' ! i = clamp_low res)"
proof (induction n arbitrary: K s)
  case 0
  then show ?case by simp
next
  case (Suc n)
  from Suc.prems obtain res s1 where
    os: "one_step sw n (K ! (n + 1)) s = Inr (res, s1)" and
    rest: "controllable_loop sw n (K[n := clamp_low res]) s1 = Inr (K', s')"
    by (auto simp: clamp_row_update split: sum.splits prod.splits)
  from Suc.IH[OF rest] Suc.prems(2) have
    len: "length K' = length K" and
    keep: "\<forall>j. n \<le> j \<longrightarrow> K' ! j = (K[n := clamp_low res]) ! j" and
    below: "\<forall>i<n. \<exists>s1 s2 res. one_step sw i (K' ! (i + 1)) s1 = Inr (res, s2) \<and> K' ! i = clamp_low res"
    by auto
  from keep Suc.prems(2) have at_n: "K' ! n = clamp_low res" by simp
  from keep have above: "\<forall>j. Suc n \<le> j \<longrightarrow> K' ! j = K ! j" by simp
  then have "K' ! (n + 1) = K ! (n + 1)" by simp
  with os have "one_step sw n (K' ! (n + 1)) s = Inr (res, s1)" by simp
  with at_n have here: "\<exists>s1 s2 res. one_step sw n (K' ! (n + 1)) s1 = Inr (res, s2) \<and> K' ! n = clamp_low res"
    by blast
  have "\<forall>i<Suc n. \<exists>s1 s2 res. one_step sw i (K' ! (i + 1)) s1 = Inr (res, s2) \<and> K' ! i = clamp_low res"
    using below here less_Suc_eq by auto
  with len above show ?case by blast
qed


lemma track_append:
  "track (es1 @ es2) b = (case track es1 b of None \<Rightarrow> None | Some b' \<Rightarrow> track es2 b')"
  by (induction es1 b rule: track.induct) auto

lemma track_solves: "\<forall>e \<in> set es. is_solve e \<Longrightarrow> track es True = Some True"
proof (induction es)
  case Nil
  then show ?case by simp
next
  case (Cons e es)
  then show ?case by (cases e) auto
qed

lemma bracketed_session:
  "\<forall>e \<in> set es. is_solve e \<Longrightarrow> bracketed (Setup # es @ [Close])"
  by (simp add: bracketed_def track_append track_solves)

lemma bracketed_append: "bracketed es1 \<Longrightarrow> bracketed es2 \<Longrightarrow> bracketed (es1 @ es2)"
  by (simp add: bracketed_def track_append)

lemma call_solve_log: "call_solve sw a s = (r, s1) \<Longrightarrow> snd s1 = snd s @ [Solve a]"
  by (auto simp: call_solve_def split: prod.splits)

lemma fst_call_solve:
  "fst (call_solve sw a s) = fst (solve_stagewise_optim sw (fst s) a)"
  by (simp add: call_solve_def split: prod.splits)

lemma call_solve_length:
  "wf_wrapper sw \<Longrightarrow> length (fst (call_solve sw a s)) = get_no_vars sw"
  by (simp add: fst_call_solve wf_wrapper_def)

lemma call_solve_entry1:
  assumes "wf_wrapper sw" "call_solve sw a t = (r, t')"
  shows "1 < length r"
proof -
  from call_solve_length[OF assms(1), of a t] assms(2) have "length r = get_no_vars sw"
    by simp
  with assms(1) show ?thesis by (simp add: wf_wrapper_def)
qed

lemma one_step_log:
  assumes "one_step sw i Kn s = Inr (res, s1)"
  shows "\<exists>es. snd s1 = snd s @ es \<and>
           (\<forall>e \<in> set es. \<exists>a. e = Solve a \<and> arg_i a = i \<and> \<not> nan_any Kn)"
proof (cases "nan_any Kn \<or> i > get_no_stages sw")
  case True
  with assms have "s1 = s" by (simp add: one_step_def)
  then show ?thesis by simp
next
  case False
  with assms obtain g r1 t1 r2 where
    c1: "call_solve sw (Args i None g None None (Some (fst Kn)) (Some (snd Kn))) s = (r1, t1)" and
    c2: "call_solve sw (Args i None (map fneg g) None None (Some (fst Kn)) (Some (snd Kn))) t1 = (r2, s1)"
    by (auto simp: one_step_def split: sum.splits prod.splits)
  from call_solve_log[OF c1] call_solve_log[OF c2] have
    "snd s1 = snd s @ [Solve (Args i None g None None (Some (fst Kn)) (Some (snd Kn))),
                       Solve (Args i None (map fneg g) None None (Some (fst Kn)) (Some (snd Kn)))]"
    by simp
  with False show ?thesis by auto
qed

lemma one_step_returns:
  assumes "wf_wrapper sw"
  shows "\<exists>res s1. one_step sw i Kn s = Inr (res, s1)"
proof -
  from assms have nv: "\<not> get_no_vars sw < 2" by (simp add: wf_wrapper_def)
  show ?thesis
    using nv call_solve_entry1[OF assms] by (auto simp: one_step_def cost_vector_def item_def split: prod.splits)
qed

lemma controllable_loop_returns:
  "wf_wrapper sw \<Longrightarrow> \<exists>K' s'. controllable_loop sw n K s = Inr (K', s')"
proof (induction n arbitrary: K s)
  case 0
  then show ?case by simp
next
  case (Suc n)
  from one_step_returns[OF Suc.prems] obtain res s1 where
    "one_step sw n (K ! (n + 1)) s = Inr (res, s1)" by blast
  with Suc.IH[OF Suc.prems] show ?case by simp
qed

lemma controllable_loop_log:
  "controllable_loop sw n K s = Inr (K', s') \<Longrightarrow> n < length K \<Longrightarrow>
     \<exists>es. snd s' = snd s @ es \<and>
       (\<forall>e \<in> set es. \<exists>a. e = Solve a \<and> arg_i a < n \<and> \<not> nan_any (K' ! (arg_i a + 1)))"
proof (induction n arbitrary: K s)
  case 0
  then show ?case by simp
next
  case (Suc n)
  from Suc.prems obtain res s1 where
    os: "one_step sw n (K ! (n + 1)) s = Inr (res, s1)" and
    rest: "controllable_loop sw n (K[n := clamp_low res]) s1 = Inr (K', s')"
    by (auto simp: clamp_row_update split: sum.splits prod.splits)
  from controllable_loop_rows[OF rest] Suc.prems(2) have "K' ! (n + 1) = K ! (n + 1)"
    by simp
  with one_step_log[OF os] obtain es1 where
    e1: "snd s1 = snd s @ es1" and
    p1: "\<forall>e \<in> set es1. \<exists>a. e = Solve a \<and> arg_i a = n \<and> \<not> nan_any (K' ! (n + 1))"
    by auto
  from Suc.IH[OF rest] Suc.prems(2) obtain es2 where
    e2: "snd s' = snd s1 @ es2" and
    p2: "\<forall>e \<in> set es2. \<exists>a. e = Solve a \<and> arg_i a < n \<and> \<not> nan_any (K' ! (arg_i a + 1))"
    by auto
  have "snd s' = snd s @ (es1 @ es2)" using e1 e2 by simp
  moreover have "\<forall>e \<in> set (es1 @ es2). \<exists>a. e = Solve a \<and> arg_i a < Suc n \<and> \<not> nan_any (K' ! (arg_i a + 1))"
    using p1 p2 by fastforce
  ultimately show ?case by blast
qed


lemma feasible_loop_length:
  "feasible_loop sw Hz g L is X s = Inr (X', s') \<Longrightarrow> length X' = length X"
proof (induction "is" arbitrary: X s)
  case Nil
  then show ?case by simp
next
  case (Cons i "is")
  from Cons.prems obtain X1 s1 where
    "feasible_loop sw Hz g L is X1 s1 = Inr (X', s')" and "length X1 = length X"
    by (auto split: sum.splits prod.splits)
  with Cons.IH show ?case by fastforce
qed

lemma feasible_loop_log:
  "feasible_loop sw Hz g L is X s = Inr (X', s') \<Longrightarrow>
     \<exists>es. snd s' = snd s @ es \<and> (\<forall>e \<in> set es. is_solve e)"
proof (induction "is" arbitrary: X s)
  case Nil
  then show ?case by simp
next
  case (Cons i "is")
  from Cons.prems obtain a1 r1 t1 a2 r2 t2 X1 where
    c1: "call_solve sw a1 s = (r1, t1)" and
    c2: "call_solve sw a2 t1 = (r2, t2)" and
    rest: "feasible_loop sw Hz g L is X1 t2 = Inr (X', s')"
    by (auto split: sum.splits prod.splits)
  from Cons.IH[OF rest] obtain es where
    "snd s' = snd t2 @ es" and "\<forall>e \<in> set es. is_solve e" by blast
  with call_solve_log[OF c1] call_solve_log[OF c2] have
    "snd s' = snd s @ (Solve a1 # Solve a2 # es)" and
    "\<forall>e \<in> set (Solve a1 # Solve a2 # es). is_solve e"
    by simp_all
  then show ?case by blast
qed

lemma feasible_loop_returns:
  assumes "wf_wrapper sw"
  shows "\<exists>X' s'. feasible_loop sw Hz g L is X s = Inr (X', s')"
proof (induction "is" arbitrary: X s)
  case Nil
  then show ?case by simp
next
  case (Cons i "is")
  show ?case
    using call_solve_entry1[OF assms] Cons.IH by (auto simp: item_def split: prod.splits sum.splits)
qed

lemma clamp_row_length: "length (clamp_row X i) = length X"
  by (simp add: clamp_row_def)

lemma clamp_row_nth:
  "j < length X \<Longrightarrow> clamp_row X i ! j = (if j = i then clamp_low (X ! i) else X ! j)"
  by (auto simp: clamp_row_def clamp_low_def)

lemma clamp_low_idem: "clamp_low (clamp_low r) = clamp_low r"
  by (cases r; cases "fst r") (auto simp: clamp_low_def)

lemma clamp_loop_length: "length (clamp_loop is X) = length X"
  by (induction "is" arbitrary: X) (simp_all add: clamp_row_length)

lemma clamp_loop_nth:
  "j < length X \<Longrightarrow>
     clamp_loop is X ! j = (if j \<in> set is then clamp_low (X ! j) else X ! j)"
proof (induction "is" arbitrary: X)
  case Nil
  then show ?case by simp
next
  case (Cons i "is")
  have "j < length (clamp_row X i)" using Cons.prems by (simp add: clamp_row_length)
  from Cons.IH[OF this] show ?case
    using Cons.prems by (simp add: clamp_row_nth clamp_low_idem)
qed

lemma clamp_low_fst: "isnan (fst (clamp_low r)) = isnan (fst r)"
  by (cases r; cases "fst r") (auto simp: clamp_low_def)

lemma clamp_low_snd: "snd (clamp_low r) = snd r"
  by (simp add: clamp_low_def)

lemma clamp_low_nan_any: "nan_any (clamp_low r) = nan_any r"
  by (simp add: nan_any_def clamp_low_fst clamp_low_snd)

lemma clamp_low_nonneg: "isnan (fst (clamp_low r)) \<or> fle (Val 0) (fst (clamp_low r))"
  by (cases r; cases "fst r") (auto simp: clamp_low_def)

lemma fmul_self_nonneg: "fle (Val 0) v \<Longrightarrow> fle (Val 0) (fmul v v)"
  by (cases v) auto

lemma clamp_inside:
  "fle lo hi \<Longrightarrow> inside (lo, hi) (pymin hi (pymax lo y))"
  by (cases lo; cases hi; cases y) (auto simp: inside_def pymin_def pymax_def fgt_def)

lemma forward_body:
  assumes "forward_loop sw fstep K deltas (i # is) us xs vv s = Inr (r, s')"
  shows "\<exists>us1 v vv1 s1. forward_loop sw fstep K deltas is us1 (xs[i + 1 := v]) vv1 s1 = Inr (r, s')
            \<and> stage_ok fstep K i v"
proof -
  obtain optim_res s1 where f: "fstep i (xs ! i) (K ! (i + 1)) s = (optim_res, s1)"
    by (cases "fstep i (xs ! i) (K ! (i + 1)) s")
  with assms obtain r0 where r0: "item optim_res 0 = Inr r0"
    by (auto split: sum.splits)
  show ?thesis
  proof (cases "r0 = PyNone")
    case True
    with f r0 assms have
      "forward_loop sw fstep K deltas is (us[i := NaN]) (xs[i + 1 := NaN])
         (vv[i := replicate (get_no_vars sw - 2) NaN]) s1 = Inr (r, s')"
      by simp
    moreover have "stage_ok fstep K i NaN"
      unfolding stage_ok_def using f r0 True by (metis fst_conv)
    ultimately show ?thesis by blast
  next
    case False
    with f r0 assms obtain d row where
      "forward_loop sw fstep K deltas is (us[i := to_float r0])
         (xs[i + 1 := pymin (snd (K ! (i + 1)))
                       (pymax (fst (K ! (i + 1)))
                          (fadd (xs ! i) (fmul (fmul (Val 2) d) ((us[i := to_float r0]) ! i))))])
         (vv[i := row]) s1 = Inr (r, s')"
      by (auto simp: Let_def split: sum.splits)
    moreover have "stage_ok fstep K i (pymin (snd (K ! (i + 1)))
                       (pymax (fst (K ! (i + 1)))
                          (fadd (xs ! i) (fmul (fmul (Val 2) d) ((us[i := to_float r0]) ! i)))))"
      unfolding stage_ok_def using clamp_inside[of "fst (K ! (i + 1))" "snd (K ! (i + 1))"]
      by simp
    ultimately show ?thesis by blast
  qed
qed

lemma forward_loop_xs:
  "forward_loop sw fstep K deltas is us xs vv s = Inr ((us', xs', vv'), s') \<Longrightarrow> distinct is \<Longrightarrow>
     length xs' = length xs \<and>
     (\<forall>j. (\<forall>i \<in> set is. j \<noteq> i + 1) \<longrightarrow> xs' ! j = xs ! j) \<and>
     (\<forall>i \<in> set is. i + 1 < length xs \<longrightarrow> stage_ok fstep K i (xs' ! (i + 1)))"
proof (induction "is" arbitrary: us xs vv s)
  case Nil
  then show ?case by simp
next
  case (Cons i "is")
  from forward_body[OF Cons.prems(1)] obtain us1 v vv1 s1 where
    rest: "forward_loop sw fstep K deltas is us1 (xs[i + 1 := v]) vv1 s1 = Inr ((us', xs', vv'), s')" and
    ok: "stage_ok fstep K i v"
    by blast
  from Cons.prems(2) have d: "distinct is" and ni: "i \<notin> set is" by simp_all
  from Cons.IH[OF rest d] have
    len: "length xs' = length xs" and
    keep: "\<forall>j. (\<forall>k \<in> set is. j \<noteq> k + 1) \<longrightarrow> xs' ! j = (xs[i + 1 := v]) ! j" and
    later: "\<forall>k \<in> set is. k + 1 < length xs \<longrightarrow> stage_ok fstep K k (xs' ! (k + 1))"
    by simp_all
  have keep': "\<forall>j. (\<forall>k \<in> set (i # is). j \<noteq> k + 1) \<longrightarrow> xs' ! j = xs ! j"
    using keep by simp
  have "\<forall>k \<in> set is. i + 1 \<noteq> k + 1" using ni by auto
  with keep have "xs' ! (i + 1) = (xs[i + 1 := v]) ! (i + 1)" by blast
  then have here: "i + 1 < length xs \<longrightarrow> stage_ok fstep K i (xs' ! (i + 1))"
    using ok by simp
  from len keep' later here show ?case by simp
qed

lemma ccs_result:
  assumes "compute_controllable_sets sw sdmin sdmax s = Inr (K, s')"
  shows "fle sdmin sdmax \<and> fle (Val 0) sdmin \<and>
         length K = get_no_stages sw + 1 \<and>
         K ! get_no_stages sw = (fmul sdmin sdmin, fmul sdmax sdmax) \<and>
         (\<forall>i < get_no_stages sw. \<exists>s1 s2 res.
             one_step sw i (K ! (i + 1)) s1 = Inr (res, s2) \<and> K ! i = clamp_low res) \<and>
         (\<exists>es. snd s' = snd s @ Setup # es @ [Close] \<and>
            (\<forall>e \<in> set es. \<exists>a. e = Solve a \<and> arg_i a < get_no_stages sw
                \<and> \<not> nan_any (K ! (arg_i a + 1))))"
proof -
  define N where "N = get_no_stages sw"
  define K0 where
    "K0 = (replicate (N + 1) (Val 0, Val 0))[N := (fmul sdmin sdmin, fmul sdmax sdmax)]"
  have lt: "N < length K0" by (simp add: K0_def del: replicate.simps)
  have top0: "K0 ! N = (fmul sdmin sdmin, fmul sdmax sdmax)"
    by (simp add: K0_def del: replicate.simps)
  from assms have pre: "fle sdmin sdmax \<and> fle (Val 0) sdmin"
    by (auto simp: compute_controllable_sets_def split: if_splits)
  with assms obtain lo hi s1 where
    lo: "py_square sdmin = Inr lo" and hi: "py_square sdmax = Inr hi" and
    loop0: "controllable_loop sw N ((replicate (N + 1) (Val 0, Val 0))[N := (lo, hi)])
              (call_setup sw s) = Inr (K, s1)" and
    s': "s' = call_close sw s1"
    unfolding compute_controllable_sets_def Let_def N_def
    by (auto split: sum.splits)
  from loop0 py_square_Inr[OF lo] py_square_Inr[OF hi] have
    loop: "controllable_loop sw N K0 (call_setup sw s) = Inr (K, s1)"
    unfolding K0_def by simp
  from controllable_loop_rows[OF loop lt] lt top0 have
    len: "length K = N + 1" and
    top: "K ! N = (fmul sdmin sdmin, fmul sdmax sdmax)" and
    rows: "\<forall>i < N. \<exists>s1 s2 res. one_step sw i (K ! (i + 1)) s1 = Inr (res, s2) \<and> K ! i = clamp_low res"
    by (simp_all add: K0_def del: replicate.simps)
  from controllable_loop_log[OF loop lt] obtain es where
    "snd s1 = snd (call_setup sw s) @ es" and
    es: "\<forall>e \<in> set es. \<exists>a. e = Solve a \<and> arg_i a < N \<and> \<not> nan_any (K ! (arg_i a + 1))"
    by blast
  with s' have "snd s' = snd s @ Setup # es @ [Close]"
    by (simp add: call_setup_def call_close_def)
  with pre len top rows es show ?thesis unfolding N_def by blast
qed

lemma ccs_squares:
  assumes "compute_controllable_sets sw sdmin sdmax s = Inr (K, s')"
  shows "py_square sdmin = Inr (fmul sdmin sdmin) \<and> py_square sdmax = Inr (fmul sdmax sdmax)"
proof -
  from assms obtain lo hi where
    lo: "py_square sdmin = Inr lo" and hi: "py_square sdmax = Inr hi"
    unfolding compute_controllable_sets_def
    by (auto split: if_splits sum.splits)
  from py_square_Inr[OF lo] py_square_Inr[OF hi] lo hi show ?thesis by simp
qed

lemma ccs_returns:
  assumes "wf_wrapper sw" "fle sdmin sdmax" "fle (Val 0) sdmin"
    and "py_square sdmin = Inr lo" "py_square sdmax = Inr hi"
  shows "\<exists>K s'. compute_controllable_sets sw sdmin sdmax s = Inr (K, s')"
proof -
  from controllable_loop_returns[OF assms(1)] obtain K s1 where
    "controllable_loop sw (get_no_stages sw)
       ((replicate (get_no_stages sw + 1) (Val 0, Val 0))[get_no_stages sw := (lo, hi)])
       (call_setup sw s) = Inr (K, s1)"
    by blast
  with assms(2-5) show ?thesis
    by (simp add: compute_controllable_sets_def Let_def)
qed

lemma ccs_overflow:
  assumes "fle (Val 0) v" "py_square v = Inl OverflowError"
  shows "compute_controllable_sets sw v v s = Inl (OverflowError, s)"
proof -
  from assms(1) have "fle v v" by (cases v) auto
  with assms show ?thesis by (simp add: compute_controllable_sets_def)
qed

lemma ccs_raises_early:
  assumes "wf_wrapper sw" "compute_controllable_sets sw sdmin sdmax s = Inl (e, t)"
  shows "t = s"
proof (cases "fle sdmin sdmax \<and> fle (Val 0) sdmin")
  case False
  with assms(2) show ?thesis by (simp add: compute_controllable_sets_def)
next
  case True
  show ?thesis
  proof (cases "py_square sdmin")
    case (Inl a)
    with True assms(2) show ?thesis by (simp add: compute_controllable_sets_def)
  next
    case lo: (Inr lo)
    show ?thesis
    proof (cases "py_square sdmax")
      case (Inl a)
      with True lo assms(2) show ?thesis by (simp add: compute_controllable_sets_def)
    next
      case hi: (Inr hi)
      from ccs_returns[OF assms(1) _ _ lo hi, of s] True assms(2) show ?thesis by auto
    qed
  qed
qed

lemma ccs_bracketed:
  assumes "wf_wrapper sw"
  shows "\<exists>es. snd (session_of (compute_controllable_sets sw sdmin sdmax s)) = snd s @ es
            \<and> bracketed es"
proof (cases "compute_controllable_sets sw sdmin sdmax s")
  case (Inl a)
  obtain e t where a: "a = (e, t)" by (cases a)
  with Inl ccs_raises_early[OF assms, of sdmin sdmax s e t] have
    "compute_controllable_sets sw sdmin sdmax s = Inl (e, s)" by simp
  then show ?thesis by (simp add: bracketed_def)
next
  case (Inr b)
  obtain K s' where b: "b = (K, s')" by (cases b)
  with Inr have r: "compute_controllable_sets sw sdmin sdmax s = Inr (K, s')" by simp
  from ccs_result[OF r] obtain es where
    "snd s' = snd s @ Setup # es @ [Close]" and
    "\<forall>e \<in> set es. \<exists>a. e = Solve a \<and> arg_i a < get_no_stages sw
                \<and> \<not> nan_any (K ! (arg_i a + 1))"
    by blast
  moreover from this have "bracketed (Setup # es @ [Close])"
    by (intro bracketed_session) auto
  ultimately show ?thesis using r by simp
qed

lemma feasible_sweep_returns:
  assumes "wf_wrapper sw"
  shows "\<exists>X s' es. feasible_sweep sw L s = Inr (X, s')
            \<and> snd s' = snd s @ Setup # es @ [Close] \<and> (\<forall>e \<in> set es. is_solve e)"
proof -
  from assms have nv: "\<not> get_no_vars sw < 2" by (simp add: wf_wrapper_def)
  let ?g = "(zeros (get_no_vars sw))[0 := Val (1 / 10 ^ 9), 1 := Val 1]"
  let ?X0 = "replicate (get_no_stages sw + 1) (Val 0, Val 0)"
  from feasible_loop_returns[OF assms] obtain X1 s1 where
    loop: "feasible_loop sw (replicate (get_no_vars sw) (zeros (get_no_vars sw))) ?g L
        [0 ..< get_no_stages sw + 1] ?X0 (call_setup sw s) = Inr (X1, s1)"
    by blast
  from feasible_loop_log[OF loop] obtain es where
    "snd s1 = snd (call_setup sw s) @ es" and es: "\<forall>e \<in> set es. is_solve e" by blast
  then have "snd (call_close sw s1) = snd s @ Setup # es @ [Close]"
    by (simp add: call_setup_def call_close_def)
  moreover from loop nv have "feasible_sweep sw L s = Inr (X1, call_close sw s1)"
    by (simp add: feasible_sweep_def cost_vector_def Let_def)
  ultimately show ?thesis using es by blast
qed

lemma feasible_sweep_length:
  assumes "feasible_sweep sw L s = Inr (X1, s')"
  shows "length X1 = get_no_stages sw + 1"
proof -
  from assms obtain Hz g s1 where
    loop: "feasible_loop sw Hz g L [0 ..< get_no_stages sw + 1]
              (replicate (get_no_stages sw + 1) (Val 0, Val 0)) (call_setup sw s) = Inr (X1, s1)"
    by (auto simp: feasible_sweep_def Let_def split: sum.splits)
  from feasible_loop_length[OF loop] show ?thesis by simp
qed

lemma feasible_result:
  assumes "compute_feasible_sets sw L s = Inr (X, s')"
  shows "\<exists>X1. feasible_sweep sw L s = Inr (X1, s')
           \<and> length X1 = get_no_stages sw + 1 \<and> length X = get_no_stages sw + 1
           \<and> (\<forall>i \<le> get_no_stages sw. X ! i = clamp_low (X1 ! i))"
proof -
  from assms obtain X1 where
    sweep: "feasible_sweep sw L s = Inr (X1, s')" and
    X: "X = clamp_loop [0 ..< get_no_stages sw + 1] X1"
    by (auto simp: compute_feasible_sets_def split: sum.splits)
  from feasible_sweep_length[OF sweep] have len: "length X1 = get_no_stages sw + 1" .
  then have rows: "\<forall>i \<le> get_no_stages sw. X ! i = clamp_low (X1 ! i)"
    using X by (simp add: clamp_loop_nth)
  from len X have lenX: "length X = get_no_stages sw + 1"
    by (simp only: clamp_loop_length)
  from sweep len lenX rows show ?thesis by blast
qed

lemma feasible_bracketed:
  assumes "wf_wrapper sw"
  shows "\<exists>X s' es. compute_feasible_sets sw L s = Inr (X, s')
            \<and> snd s' = snd s @ Setup # es @ [Close] \<and> (\<forall>e \<in> set es. is_solve e)"
proof -
  from feasible_sweep_returns[OF assms] obtain X1 s' es where
    "feasible_sweep sw L s = Inr (X1, s')" and
    "snd s' = snd s @ Setup # es @ [Close]" and "\<forall>e \<in> set es. is_solve e"
    by blast
  then show ?thesis by (simp add: compute_feasible_sets_def)
qed

lemma forward_step_result:
  assumes "wf_wrapper sw" "forward_step sw g i x Kn s = (r, s1)"
  shows "length r = get_no_vars sw \<and> (\<forall>k < length r. r ! k \<noteq> PyNone)
         \<and> (\<exists>a. snd s1 = snd s @ [Solve a])"
proof -
  obtain r0 t where c: "call_solve sw (Args i None (g i) (Some x) (Some x)
             (Some (fst Kn)) (Some (snd Kn))) s = (r0, t)"
    by (cases "call_solve sw (Args i None (g i) (Some x) (Some x)
             (Some (fst Kn)) (Some (snd Kn))) s")
  with assms(2) have r: "r = map PyFloat r0" and t: "s1 = t"
    by (simp_all add: forward_step_def)
  from call_solve_length[OF assms(1),
      of "Args i None (g i) (Some x) (Some x) (Some (fst Kn)) (Some (snd Kn))" s] c
  have "length r0 = get_no_vars sw"
    by simp
  with r t call_solve_log[OF c] show ?thesis by auto
qed

lemma forward_step_issues_only_solves:
  assumes "wf_wrapper sw"
  shows "issues_only_solves sw (forward_step sw g)"
  unfolding issues_only_solves_def
proof (intro allI)
  fix i x Kn and t :: "'a sess"
  obtain r s1 where f: "forward_step sw g i x Kn t = (r, s1)"
    by (cases "forward_step sw g i x Kn t")
  from forward_step_result[OF assms f] obtain a where
    "length r = get_no_vars sw" and "snd s1 = snd t @ [Solve a]"
    by blast
  then have "length r = get_no_vars sw \<and>
      (\<exists>ss. snd s1 = snd t @ ss \<and> (\<forall>e \<in> set ss. is_solve e))"
    by (intro conjI exI[of _ "[Solve a]"]) simp_all
  with f show "length (fst (forward_step sw g i x Kn t)) = get_no_vars sw \<and>
      (\<exists>ss. snd (snd (forward_step sw g i x Kn t)) = snd t @ ss \<and> (\<forall>e \<in> set ss. is_solve e))"
    by simp
qed

lemma forward_loop_returns:
  assumes "wf_wrapper sw" "issues_only_solves sw fstep"
  shows "\<forall>i \<in> set is. i < get_no_stages sw \<Longrightarrow>
     \<exists>r s' es. forward_loop sw fstep K (get_deltas sw) is us xs vv s = Inr (r, s')
        \<and> snd s' = snd s @ es \<and> (\<forall>e \<in> set es. is_solve e)"
proof (induction "is" arbitrary: us xs vv s)
  case Nil
  then show ?case by simp
next
  case (Cons i "is")
  obtain r s1 where f: "fstep i (xs ! i) (K ! (i + 1)) s = (r, s1)"
    by (cases "fstep i (xs ! i) (K ! (i + 1)) s")
  from assms(2) f obtain ss where
    len: "length r = get_no_vars sw" and
    log: "snd s1 = snd s @ ss" and ss: "\<forall>e \<in> set ss. is_solve e"
    unfolding issues_only_solves_def by (metis fst_conv snd_conv)
  from assms(1) have nv: "2 \<le> get_no_vars sw" and dl: "length (get_deltas sw) = get_no_stages sw"
    by (simp_all add: wf_wrapper_def)
  from len nv have i0: "item r 0 = Inr (r ! 0)"
    by (simp add: item_def)
  from Cons.prems dl have id: "item (get_deltas sw) i = Inr (get_deltas sw ! i)"
    by (simp add: item_def)
  from len have ar: "assign_row (get_no_vars sw - 2) (drop 2 r) = Inr (map to_float (drop 2 r))"
    by (simp add: assign_row_def)
  from f i0 id ar obtain us1 xs1 vv1 where
    step: "forward_loop sw fstep K (get_deltas sw) (i # is) us xs vv s =
      forward_loop sw fstep K (get_deltas sw) is us1 xs1 vv1 s1"
    by (cases "r ! 0 = PyNone") (simp_all add: Let_def)
  from Cons.prems have "\<forall>i \<in> set is. i < get_no_stages sw" by simp
  from Cons.IH[OF this, of us1 xs1 vv1 s1]
  obtain r' s' es where
    "forward_loop sw fstep K (get_deltas sw) is us1 xs1 vv1 s1 = Inr (r', s')" and
    "snd s' = snd s1 @ es" and "\<forall>e \<in> set es. is_solve e"
    by blast
  with step log ss have
    "forward_loop sw fstep K (get_deltas sw) (i # is) us xs vv s = Inr (r', s')"
    "snd s' = snd s @ (ss @ es)" "\<forall>e \<in> set (ss @ es). is_solve e"
    by auto
  then show ?case by blast
qed

lemma profile_none:
  assumes "fle (Val 0) sd_start" "fle (Val 0) sd_end"
    and "compute_controllable_sets sw sd_end sd_end s = Inr (K, s1)"
  shows "((\<exists>s'. parameterization_profile sw SMALL fstep sd_start sd_end s = Inr (None, s'))
           = (isnan_any K \<or> (\<exists>x. py_square sd_start = Inr x \<and> start_rejected SMALL K x)))
       \<and> (isnan_any K \<or> (\<exists>x. py_square sd_start = Inr x \<and> start_rejected SMALL K x)
           \<longrightarrow> parameterization_profile sw SMALL fstep sd_start sd_end s = Inr (None, s1))
       \<and> (\<not> isnan_any K \<and> py_square sd_start = Inl OverflowError
           \<longrightarrow> parameterization_profile sw SMALL fstep sd_start sd_end s
                 = Inl (OverflowError, s1))"
  using assms
  by (auto simp: parameterization_profile_def start_rejected_def fge_def Let_def
           split: sum.splits)

lemma param_overflow:
  assumes "fle (Val 0) sd_start" "fle (Val 0) sd_end"
    and "compute_controllable_sets sw sd_end sd_end s = Inr (K, s1)"
    and "\<not> isnan_any K" "py_square sd_start = Inl OverflowError"
  shows "compute_parameterization sw SMALL fstep sd_start sd_end s = Inl (OverflowError, s1)"
  using profile_none[OF assms(1-3), of SMALL fstep] assms(4,5)
  by (simp add: compute_parameterization_def)

lemma param_none:
  "(compute_parameterization sw SMALL fstep a b s = Inr (NoneTriple, s'))
     = (parameterization_profile sw SMALL fstep a b s = Inr (None, s'))"
  by (auto simp: compute_parameterization_def split: sum.splits option.splits prod.splits)

lemma param_arrays:
  "(compute_parameterization sw SMALL fstep a b s = Inr (Arrays sdd sd v, s'))
     = (\<exists>xs. parameterization_profile sw SMALL fstep a b s = Inr (Some (sdd, xs, v), s')
            \<and> sd = map fsqrt xs)"
  by (auto simp: compute_parameterization_def split: sum.splits option.splits prod.splits)

lemma param_session:
  "session_of (compute_parameterization sw SMALL fstep a b s)
     = session_of (parameterization_profile sw SMALL fstep a b s)"
  by (auto simp: compute_parameterization_def split: sum.splits option.splits prod.splits)

lemma check_increasing_iff:
  "check_increasing a is = (\<forall>i \<in> set is. fgt (a ! (i + 1)) (a ! i))"
  by (induction "is") auto

lemma length_grid_deltas: "length (grid_deltas a) = length a - 1"
  by (simp add: grid_deltas_def)

lemma nth_grid_deltas: "i + 1 < length a \<Longrightarrow> grid_deltas a ! i = fsub (a ! (i + 1)) (a ! i)"
  by (simp add: grid_deltas_def nth_tl nth_butlast)

lemma has_conic_loop_iff:
  "has_conic_loop cs b = (b \<or> (\<exists>c \<in> set cs. get_constraint_type c = CanonicalConic))"
  by (induction cs arbitrary: b) auto

lemma has_conic_iff:
  "has_conic cs = (\<exists>c \<in> set cs. get_constraint_type c = CanonicalConic)"
  by (simp add: has_conic_def has_conic_loop_iff)

lemma lower_ecos: "lower ''ecos'' = ''ecos''"
  by code_simp

lemma lower_qpOASES: "lower ''qpOASES'' = ''qpoases''"
  by code_simp

lemma select_class_cases:
  "select_class name = Inr b \<Longrightarrow>
     (b = cvxpyWrapper \<and> lower name = ''cvxpy'') \<or> (b = qpOASESSolverWrapper \<and> lower name = ''qpoases'')
     \<or> (b = hotqpOASESSolverWrapper \<and> lower name = ''hotqpoases'') \<or> (b = ecosWrapper \<and> lower name = ''ecos'')"
  by (auto simp: select_class_def split: if_splits)

lemma select_class_unknown:
  "select_class name = Inl e \<Longrightarrow>
     lower name \<notin> set [''cvxpy'', ''qpoases'', ''ecos'', ''hotqpoases'']"
  by (auto simp: select_class_def split: if_splits)

lemmas engine_eval =
  compute_controllable_sets_def compute_feasible_sets_def feasible_sweep_def
  one_step_def call_solve_def call_setup_def call_close_def cost_vector_def zeros_def item_def
  clamp_row_def clamp_low_def nan_any_def isnan_any_def Let_def
  table_wrapper_def table_solve_def py_square_small

lemma empty_propagates_down:
  assumes step: "\<forall>i < n. nan_any (K ! (i + 1)) \<longrightarrow> K ! i = (NaN, NaN)"
  shows "i \<le> n \<Longrightarrow> nan_any (K ! i) \<Longrightarrow> j < i \<Longrightarrow> K ! j = (NaN, NaN)"
proof (induction i)
  case 0
  then show ?case by simp
next
  case (Suc i)
  from step Suc.prems(1,2) have here: "K ! i = (NaN, NaN)" by simp
  show ?case
  proof (cases "j = i")
    case True
    with here show ?thesis by simp
  next
    case False
    with Suc.prems(3) have "j < i" by simp
    moreover from here have "nan_any (K ! i)" by (simp add: nan_any_def)
    ultimately show ?thesis using Suc.IH Suc.prems(1) by simp
  qed
qed

lemma wf_table_wrapper: "wf_wrapper (table_wrapper n tab u)"
  by (auto simp: wf_wrapper_def table_wrapper_def table_solve_def split: option.splits)

lemma stages_table_wrapper: "get_no_stages (table_wrapper n tab u) = n"
  by (simp add: table_wrapper_def)

lemma clamp_low_lower: "\<not> isnan (fst (clamp_low r)) \<Longrightarrow> fle (Val 0) (fst (clamp_low r))"
  using clamp_low_nonneg[of r] by blast

lemma isnan_any_iff: "isnan_any K = (\<exists>i < length K. nan_any (K ! i))"
  by (simp add: isnan_any_def list_ex_length)

lemmas forward_eval =
  compute_parameterization_def parameterization_profile_def forward_step_def g_max_u_def
  fge_def fgt_def pymin_def pymax_def assign_row_def

lemma profile_some:
  assumes "parameterization_profile sw SMALL fstep sd_start sd_end s = Inr (Some r, s')"
    and "compute_controllable_sets sw sd_end sd_end s = Inr (K, s1)"
  shows "fle (Val 0) sd_start \<and> \<not> isnan_any K
       \<and> py_square sd_start = Inr (fmul sd_start sd_start)
       \<and> \<not> start_rejected SMALL K (fmul sd_start sd_start)
       \<and> (\<exists>s2. forward_loop sw fstep K (get_deltas sw) [0 ..< get_no_stages sw]
              (zeros (get_no_stages sw))
              ((zeros (get_no_stages sw + 1))[0 := fmul sd_start sd_start])
              (replicate (get_no_stages sw) (zeros (get_no_vars sw - 2)))
              (call_setup sw s1) = Inr (r, s2))"
proof -
  from assms obtain x where x: "py_square sd_start = Inr x"
    by (auto simp: parameterization_profile_def Let_def split: if_splits sum.splits)
  from py_square_Inr[OF x] x have sq: "py_square sd_start = Inr (fmul sd_start sd_start)"
    by simp
  with assms show ?thesis
    by (auto simp: parameterization_profile_def start_rejected_def fge_def Let_def
             split: if_splits sum.splits)
qed

lemma start_near:
  assumes "fle (Val 0) sd" "\<not> nan_any k0" "\<not> start_rejected SMALL (k0 # ks) (fmul sd sd)"
  shows "fle (fst k0) (fadd (fmul sd sd) (Val SMALL)) \<and> fle (fmul sd sd) (fadd (snd k0) (Val SMALL))"
  using assms
  by (cases sd; cases k0; cases "fst k0"; cases "snd k0")
     (auto simp: start_rejected_def nan_any_def)

section \<open>Claims\<close>

text \<open>
  C7: constructing the stage oracle raises at once (AssertionError, or IndexError for a
  grid with no sample) when the grid's first sample differs from the path's lower
  bound, its last sample differs from the upper bound, or some sample is not greater
  than its predecessor; with a valid grid the construction succeeds, the deltas are the
  successive differences and the number of stages is one less than the number of
  samples.
\<close>

theorem SolverWrapper_init_validates:
  "((grid = [] \<or> \<not> feq (fst (get_path_interval p)) (hd grid)
      \<or> \<not> feq (snd (get_path_interval p)) (last grid)
      \<or> (\<exists>i. i + 1 < length grid \<and> \<not> fgt (grid ! (i + 1)) (grid ! i)))
     \<longrightarrow> (SolverWrapper_init cs p grid = Inl AssertionError
          \<or> (grid = [] \<and> SolverWrapper_init cs p grid = Inl IndexError)))
   \<and> ((grid \<noteq> [] \<and> feq (fst (get_path_interval p)) (hd grid)
      \<and> feq (snd (get_path_interval p)) (last grid)
      \<and> (\<forall>i. i + 1 < length grid \<longrightarrow> fgt (grid ! (i + 1)) (grid ! i)))
     \<longrightarrow> (\<exists>sw. SolverWrapper_init cs p grid = Inr sw
            \<and> path_discretization sw = grid
            \<and> get_no_stages sw = length grid - 1
            \<and> length (get_deltas sw) = get_no_stages sw
            \<and> (\<forall>i < get_no_stages sw. get_deltas sw ! i = fsub (grid ! (i + 1)) (grid ! i))
            \<and> get_no_vars sw = 2 + sum_list (map get_no_extra_vars cs)))"
  by (auto simp: SolverWrapper_init_def check_increasing_iff length_grid_deltas nth_grid_deltas)

theorem SolverWrapper_init_validates_witness:
  "SolverWrapper_init [] \<lparr>get_path_interval = (Val 0, Val 2)\<rparr> [Val 0, Val 1, Val 2]
     = Inr \<lparr>path_discretization = [Val 0, Val 1, Val 2], get_no_stages = 2,
            get_deltas = [Val 1, Val 1], get_no_vars = 2\<rparr>
   \<and> \<not> fgt ([Val 0, Val 2, Val 2] ! (1 + 1)) ([Val 0, Val 2, Val 2] ! 1)
   \<and> SolverWrapper_init [] \<lparr>get_path_interval = (Val 0, Val 2)\<rparr> [Val 0, Val 2, Val 2]
     = Inl AssertionError
   \<and> \<not> feq (fst (get_path_interval \<lparr>get_path_interval = (Val 1, Val 2)\<rparr>)) (hd [Val 0, Val 1, Val 2])
   \<and> SolverWrapper_init [] \<lparr>get_path_interval = (Val 1, Val 2)\<rparr> [Val 0, Val 1, Val 2]
     = Inl AssertionError"
  using SolverWrapper_init_validates[of "[Val 0, Val 1, Val 2]" "\<lparr>get_path_interval = (Val 0, Val 2)\<rparr>" "[]"]
    SolverWrapper_init_validates[of "[Val 0, Val 2, Val 2]" "\<lparr>get_path_interval = (Val 0, Val 2)\<rparr>" "[]"]
    SolverWrapper_init_validates[of "[Val 0, Val 1, Val 2]" "\<lparr>get_path_interval = (Val 1, Val 2)\<rparr>" "[]"]
  by (simp add: SolverWrapper_init_def grid_deltas_def fgt_def upt_rec)

text \<open>
  C8: with a conic constraint in the list, a name that stands for a backend outside
  the conic-capable ones is rejected with an AssertionError, a conic-capable one is
  accepted, and the automatic choice is the conic-capable ecos backend; without a
  conic constraint every supported name is accepted and the automatic choice is the
  quadratic-programming backend qpOASES. A name that stands for no backend is
  rejected in both cases.
\<close>

theorem backend_selection_honours_conic:
  "((\<exists>c \<in> set cs. get_constraint_type c = CanonicalConic) \<longrightarrow>
       (\<forall>name b. select_class name = Inr b \<and> \<not> conic_capable b \<longrightarrow>
            select_backend cs (Some name) = Inl AssertionError)
     \<and> (\<forall>name b. select_class name = Inr b \<and> conic_capable b \<longrightarrow>
            select_backend cs (Some name) = Inr b)
     \<and> select_backend cs None = Inr ecosWrapper \<and> conic_capable ecosWrapper)
   \<and> (\<not> (\<exists>c \<in> set cs. get_constraint_type c = CanonicalConic) \<longrightarrow>
       (\<forall>name b. select_class name = Inr b \<longrightarrow> select_backend cs (Some name) = Inr b)
     \<and> select_backend cs None = Inr qpOASESSolverWrapper)
   \<and> (\<forall>name e. select_class name = Inl e \<longrightarrow> select_backend cs (Some name) = Inl AssertionError)"
proof -
  have auto_conic: "select_class ''ecos'' = Inr ecosWrapper"
    by (simp add: select_class_def lower_ecos)
  have auto_qp: "select_class ''qpOASES'' = Inr qpOASESSolverWrapper"
    by (simp add: select_class_def lower_qpOASES)
  have named: "\<And>name b. select_class name = Inr b \<Longrightarrow>
      select_backend cs (Some name) =
        (if has_conic cs \<and> \<not> conic_capable b then Inl AssertionError else Inr b)"
    by (drule select_class_cases)
       (auto simp: select_backend_def choose_name_def conic_capable_def select_class_def)
  have unknown: "\<And>name e. select_class name = Inl e \<Longrightarrow>
      select_backend cs (Some name) = Inl AssertionError"
    by (drule select_class_unknown) (auto simp: select_backend_def choose_name_def)
  have auto1: "has_conic cs \<Longrightarrow> select_backend cs None = Inr ecosWrapper"
    using auto_conic by (simp add: select_backend_def choose_name_def)
  have auto2: "\<not> has_conic cs \<Longrightarrow> select_backend cs None = Inr qpOASESSolverWrapper"
    using auto_qp by (simp add: select_backend_def choose_name_def)
  have cap: "conic_capable ecosWrapper" by (simp add: conic_capable_def)
  show ?thesis
    using named unknown auto1 auto2 cap
    by (simp add: has_conic_iff[symmetric])
qed

theorem backend_selection_honours_conic_witness:
  "get_constraint_type \<lparr>get_constraint_type = CanonicalConic, get_no_extra_vars = 1\<rparr> = CanonicalConic
   \<and> select_class ''qpOASES'' = Inr qpOASESSolverWrapper \<and> \<not> conic_capable qpOASESSolverWrapper
   \<and> select_backend [\<lparr>get_constraint_type = CanonicalConic, get_no_extra_vars = 1\<rparr>] (Some ''qpOASES'')
        = Inl AssertionError
   \<and> select_backend [\<lparr>get_constraint_type = CanonicalConic, get_no_extra_vars = 1\<rparr>] (Some ''ecos'')
        = Inr ecosWrapper
   \<and> select_backend [\<lparr>get_constraint_type = CanonicalConic, get_no_extra_vars = 1\<rparr>] None
        = Inr ecosWrapper
   \<and> select_backend [\<lparr>get_constraint_type = CanonicalLinear, get_no_extra_vars = 0\<rparr>] (Some ''qpOASES'')
        = Inr qpOASESSolverWrapper
   \<and> select_backend [\<lparr>get_constraint_type = CanonicalLinear, get_no_extra_vars = 0\<rparr>] None
        = Inr qpOASESSolverWrapper
   \<and> select_class ''mosek'' = Inl NotImplementedError
   \<and> select_backend [\<lparr>get_constraint_type = CanonicalLinear, get_no_extra_vars = 0\<rparr>] (Some ''mosek'')
        = Inl AssertionError"
proof -
  have l1: "lower ''qpOASES'' = ''qpoases''" by code_simp
  have l2: "lower ''ecos'' = ''ecos''" by code_simp
  have l3: "lower ''mosek'' = ''mosek''" by code_simp
  show ?thesis
    using backend_selection_honours_conic[of "[\<lparr>get_constraint_type = CanonicalConic, get_no_extra_vars = 1\<rparr>]"]
      backend_selection_honours_conic[of "[\<lparr>get_constraint_type = CanonicalLinear, get_no_extra_vars = 0\<rparr>]"]
    by (simp add: select_class_def l1 l2 l3 conic_capable_def)
qed

text \<open>
  C4: in the array K that compute_controllable_sets returns, a row i + 1 that holds a
  NaN makes row i the empty marker (NaN, NaN), so emptiness at a stage reaches every
  earlier stage; and every solve of the session is issued for a stage whose successor
  row holds no NaN.
\<close>

theorem controllable_sets_monotone_propagation:
  assumes "compute_controllable_sets sw sdmin sdmax s = Inr (K, s')"
  shows "(\<forall>i < get_no_stages sw. nan_any (K ! (i + 1)) \<longrightarrow> K ! i = (NaN, NaN))
       \<and> (\<forall>i \<le> get_no_stages sw. nan_any (K ! i) \<longrightarrow> (\<forall>j < i. K ! j = (NaN, NaN)))
       \<and> (\<exists>es. snd s' = snd s @ Setup # es @ [Close] \<and>
            (\<forall>e \<in> set es. \<exists>a. e = Solve a \<and> arg_i a < get_no_stages sw
                \<and> \<not> nan_any (K ! (arg_i a + 1))))"
proof -
  from ccs_result[OF assms] have
    rows: "\<forall>i < get_no_stages sw. \<exists>s1 s2 res.
             one_step sw i (K ! (i + 1)) s1 = Inr (res, s2) \<and> K ! i = clamp_low res" and
    log: "\<exists>es. snd s' = snd s @ Setup # es @ [Close] \<and>
            (\<forall>e \<in> set es. \<exists>a. e = Solve a \<and> arg_i a < get_no_stages sw
                \<and> \<not> nan_any (K ! (arg_i a + 1)))"
    by blast+
  have step: "\<forall>i < get_no_stages sw. nan_any (K ! (i + 1)) \<longrightarrow> K ! i = (NaN, NaN)"
  proof (intro allI impI)
    fix i assume i: "i < get_no_stages sw" and e: "nan_any (K ! (i + 1))"
    from rows i obtain s1 s2 res where
      "one_step sw i (K ! (i + 1)) s1 = Inr (res, s2)" and k: "K ! i = clamp_low res"
      by blast
    with one_step_empty[OF e, of sw i s1] have "res = (NaN, NaN)" by simp
    with k show "K ! i = (NaN, NaN)" by (simp add: clamp_low_def)
  qed
  from empty_propagates_down[OF step] have
    "\<forall>i \<le> get_no_stages sw. nan_any (K ! i) \<longrightarrow> (\<forall>j < i. K ! j = (NaN, NaN))"
    by blast
  with step log show ?thesis by blast
qed

theorem controllable_sets_monotone_propagation_witness:
  "returned (compute_controllable_sets
       (table_wrapper 2 (\<lambda>i. if i = 1 then (NaN, NaN) else (Val (- 1), Val 4)) (Val 0))
       (Val 0) (Val 0) (0, []))
     = Some [(NaN, NaN), (NaN, NaN), (Val 0, Val 0)]
   \<and> nan_any ([(NaN, NaN), (NaN, NaN), (Val 0, Val 0)] ! (0 + 1))
   \<and> [(NaN, NaN), (NaN, NaN), (Val 0, Val 0)] ! 0 = (NaN, NaN)"
proof -
  obtain s' where e: "compute_controllable_sets
       (table_wrapper 2 (\<lambda>i. if i = 1 then (NaN, NaN) else (Val (- 1), Val 4)) (Val 0))
       (Val 0) (Val 0) (0, []) = Inr ([(NaN, NaN), (NaN, NaN), (Val 0, Val 0)], s')"
    by (simp add: engine_eval eval_nat_numeral)
  from controllable_sets_monotone_propagation[OF e] e show ?thesis
    by (auto simp: nan_any_def)
qed

text \<open>
  C5 as stated fails: for v = 10^200 the square of line 126 leaves the float range
  and compute_controllable_sets(v, v) raises OverflowError before the setup, so no
  array is returned; and with a backend that returns arrays of one entry, reading
  entry 1 raises IndexError, again with no array.
\<close>

theorem terminal_square_overflows:
  "fle (Val 0) (Val (10 ^ 200))
   \<and> compute_controllable_sets (table_wrapper 1 (\<lambda>i. (Val 0, Val 4)) (Val 0))
        (Val (10 ^ 200)) (Val (10 ^ 200)) (0, [])
      = Inl (OverflowError, (0, []))
   \<and> returned (compute_controllable_sets (table_wrapper 1 (\<lambda>i. (Val 0, Val 4)) (Val 0))
        (Val (10 ^ 200)) (Val (10 ^ 200)) (0, [])) = None
   \<and> raised (compute_controllable_sets short_wrapper (Val 0) (Val 0) (0, [])) = Some IndexError
   \<and> returned (compute_controllable_sets short_wrapper (Val 0) (Val 0) (0, [])) = None"
proof -
  have pos: "fle (Val 0) (Val (10 ^ 200))" by simp
  have a: "compute_controllable_sets (table_wrapper 1 (\<lambda>i. (Val 0, Val 4)) (Val 0))
        (Val (10 ^ 200)) (Val (10 ^ 200)) (0, []) = Inl (OverflowError, (0, []))"
    by (rule ccs_overflow[OF pos py_square_huge])
  have b: "raised (compute_controllable_sets short_wrapper (Val 0) (Val 0) (0, [])) = Some IndexError"
    by (simp add: engine_eval short_wrapper_def eval_nat_numeral)
  have c: "returned (compute_controllable_sets short_wrapper (Val 0) (Val 0) (0, [])) = None"
    by (simp add: engine_eval short_wrapper_def eval_nat_numeral)
  from a have a': "returned (compute_controllable_sets (table_wrapper 1 (\<lambda>i. (Val 0, Val 4)) (Val 0))
        (Val (10 ^ 200)) (Val (10 ^ 200)) (0, [])) = None"
    by (simp only: returned.simps)
  from pos a a' b c show ?thesis by blast
qed

text \<open>
  C5, amended: whenever compute_controllable_sets(v, v) returns, the array has N + 1
  rows and its last row is (v * v, v * v), the square as line 126 computes it, left
  alone by the recursion and the clamp. It does return, for v \<ge> 0, when the square of
  v stays in the float range and the solves return one value per variable; when the
  square overflows the call raises OverflowError with no operation on the wrapper.
\<close>

theorem terminal_pinning:
  "(compute_controllable_sets sw v v s = Inr (K, s') \<longrightarrow>
       length K = get_no_stages sw + 1 \<and> K ! get_no_stages sw = (fmul v v, fmul v v)
       \<and> py_square v = Inr (fmul v v))
   \<and> (wf_wrapper sw \<and> fle (Val 0) v \<and> py_square v = Inr y \<longrightarrow>
       (\<exists>K s' x. compute_controllable_sets sw v v s = Inr (K, s') \<and> v = Val x
           \<and> y = Val (x * x)
           \<and> length K = get_no_stages sw + 1 \<and> K ! get_no_stages sw = (Val (x * x), Val (x * x))))
   \<and> (fle (Val 0) v \<and> py_square v = Inl OverflowError \<longrightarrow>
       compute_controllable_sets sw v v s = Inl (OverflowError, s))"
proof -
  have part: "\<And>K s'. compute_controllable_sets sw v v s = Inr (K, s') \<Longrightarrow>
       length K = get_no_stages sw + 1 \<and> K ! get_no_stages sw = (fmul v v, fmul v v)
       \<and> py_square v = Inr (fmul v v)"
    using ccs_result ccs_squares by blast
  have total: "\<exists>K s' x. compute_controllable_sets sw v v s = Inr (K, s') \<and> v = Val x
           \<and> y = Val (x * x)
           \<and> length K = get_no_stages sw + 1 \<and> K ! get_no_stages sw = (Val (x * x), Val (x * x))"
    if wf: "wf_wrapper sw" and v: "fle (Val 0) v" and sq: "py_square v = Inr y"
  proof -
    from v obtain x where x: "v = Val x" by (cases v) auto
    then have vv: "fle v v" by simp
    from ccs_returns[OF wf vv v sq sq] obtain K s' where
      r: "compute_controllable_sets sw v v s = Inr (K, s')" by blast
    from py_square_Inr[OF sq] x have "y = Val (x * x)" by simp
    with part[OF r] x r show ?thesis by auto
  qed
  have over: "compute_controllable_sets sw v v s = Inl (OverflowError, s)"
    if v: "fle (Val 0) v" and sq: "py_square v = Inl OverflowError"
    using ccs_overflow[OF v sq] .
  from part total over show ?thesis by blast
qed

theorem terminal_pinning_witness:
  "wf_wrapper (table_wrapper 2 (\<lambda>i. (Val (- 1), Val 4)) (Val 0)) \<and> fle (Val 0) (Val 3)
   \<and> py_square (Val 3) = Inr (Val 9)
   \<and> returned (compute_controllable_sets (table_wrapper 2 (\<lambda>i. (Val (- 1), Val 4)) (Val 0))
         (Val 3) (Val 3) (0, []))
      = Some [(Val 0, Val 4), (Val 0, Val 4), (Val 9, Val 9)]
   \<and> [(Val 0, Val 4), (Val 0, Val 4), (Val 9, Val 9)]
        ! get_no_stages (table_wrapper 2 (\<lambda>i. (Val (- 1), Val 4)) (Val 0)) = (Val (3 * 3), Val (3 * 3))
   \<and> fle (Val 0) (Val (10 ^ 200)) \<and> py_square (Val (10 ^ 200)) = Inl OverflowError
   \<and> compute_controllable_sets (table_wrapper 2 (\<lambda>i. (Val (- 1), Val 4)) (Val 0))
         (Val (10 ^ 200)) (Val (10 ^ 200)) (0, [])
      = Inl (OverflowError, (0, []))"
proof -
  obtain s' where e: "compute_controllable_sets (table_wrapper 2 (\<lambda>i. (Val (- 1), Val 4)) (Val 0))
         (Val 3) (Val 3) (0, []) = Inr ([(Val 0, Val 4), (Val 0, Val 4), (Val 9, Val 9)], s')"
    by (simp add: engine_eval eval_nat_numeral)
  have sq: "py_square (Val 3) = Inr (Val 9)" by (simp add: py_square_small)
  have ov: "py_square (Val (10 ^ 200)) = Inl OverflowError" by (rule py_square_huge)
  have pos: "fle (Val 0) (Val (10 ^ 200))" by simp
  from terminal_pinning[of "table_wrapper 2 (\<lambda>i. (Val (- 1), Val 4)) (Val 0)" "Val 3" "(0, [])"
      "[(Val 0, Val 4), (Val 0, Val 4), (Val 9, Val 9)]" s' "Val 9"]
    e sq wf_table_wrapper
  have small: "wf_wrapper (table_wrapper 2 (\<lambda>i. (Val (- 1), Val 4)) (Val 0)) \<and> fle (Val 0) (Val 3)
   \<and> py_square (Val 3) = Inr (Val 9)
   \<and> returned (compute_controllable_sets (table_wrapper 2 (\<lambda>i. (Val (- 1), Val 4)) (Val 0))
         (Val 3) (Val 3) (0, []))
      = Some [(Val 0, Val 4), (Val 0, Val 4), (Val 9, Val 9)]
   \<and> [(Val 0, Val 4), (Val 0, Val 4), (Val 9, Val 9)]
        ! get_no_stages (table_wrapper 2 (\<lambda>i. (Val (- 1), Val 4)) (Val 0)) = (Val (3 * 3), Val (3 * 3))"
    by (simp add: stages_table_wrapper)
  from terminal_pinning[of "table_wrapper 2 (\<lambda>i. (Val (- 1), Val 4)) (Val 0)" "Val (10 ^ 200)" "(0, [])"]
    pos ov
  have big: "compute_controllable_sets (table_wrapper 2 (\<lambda>i. (Val (- 1), Val 4)) (Val 0))
         (Val (10 ^ 200)) (Val (10 ^ 200)) (0, [])
      = Inl (OverflowError, (0, []))"
    by blast
  from small pos ov big show ?thesis by blast
qed

text \<open>
  C6: in the arrays that compute_feasible_sets and compute_controllable_sets return
  (the latter asserts sdmin \<ge> 0), every row whose lower bound is a number has a lower
  bound \<ge> 0; both arrays have N + 1 rows.
\<close>

theorem interval_lower_bounds_nonnegative:
  "(compute_feasible_sets sw L s = Inr (X, s') \<longrightarrow>
      length X = get_no_stages sw + 1 \<and>
      (\<forall>i < length X. \<not> isnan (fst (X ! i)) \<longrightarrow> fle (Val 0) (fst (X ! i))))
   \<and> (compute_controllable_sets sw sdmin sdmax t = Inr (K, t') \<longrightarrow>
      length K = get_no_stages sw + 1 \<and>
      (\<forall>i < length K. \<not> isnan (fst (K ! i)) \<longrightarrow> fle (Val 0) (fst (K ! i))))"
proof -
  have feas: "length X = get_no_stages sw + 1 \<and>
      (\<forall>i < length X. \<not> isnan (fst (X ! i)) \<longrightarrow> fle (Val 0) (fst (X ! i)))"
    if r: "compute_feasible_sets sw L s = Inr (X, s')"
  proof -
    from feasible_result[OF r] obtain X1 where
      len: "length X = get_no_stages sw + 1" and
      rows: "\<forall>i \<le> get_no_stages sw. X ! i = clamp_low (X1 ! i)"
      by blast
    have "\<forall>i < length X. \<not> isnan (fst (X ! i)) \<longrightarrow> fle (Val 0) (fst (X ! i))"
    proof (intro allI impI)
      fix i assume "i < length X" and nn: "\<not> isnan (fst (X ! i))"
      with len rows have "X ! i = clamp_low (X1 ! i)" by simp
      with nn clamp_low_lower[of "X1 ! i"] show "fle (Val 0) (fst (X ! i))" by simp
    qed
    with len show ?thesis by blast
  qed
  have ctrl: "length K = get_no_stages sw + 1 \<and>
      (\<forall>i < length K. \<not> isnan (fst (K ! i)) \<longrightarrow> fle (Val 0) (fst (K ! i)))"
    if r: "compute_controllable_sets sw sdmin sdmax t = Inr (K, t')"
  proof -
    from ccs_result[OF r] have
      pre: "fle (Val 0) sdmin" and
      len: "length K = get_no_stages sw + 1" and
      top: "K ! get_no_stages sw = (fmul sdmin sdmin, fmul sdmax sdmax)" and
      rows: "\<forall>i < get_no_stages sw. \<exists>s1 s2 res.
             one_step sw i (K ! (i + 1)) s1 = Inr (res, s2) \<and> K ! i = clamp_low res"
      by blast+
    have "\<forall>i < length K. \<not> isnan (fst (K ! i)) \<longrightarrow> fle (Val 0) (fst (K ! i))"
    proof (intro allI impI)
      fix i assume i: "i < length K" and nn: "\<not> isnan (fst (K ! i))"
      show "fle (Val 0) (fst (K ! i))"
      proof (cases "i = get_no_stages sw")
        case True
        with top fmul_self_nonneg[OF pre] show ?thesis by simp
      next
        case False
        with i len have "i < get_no_stages sw" by simp
        with rows obtain res where "K ! i = clamp_low res" by blast
        with nn clamp_low_lower[of res] show ?thesis by simp
      qed
    qed
    with len show ?thesis by blast
  qed
  from feas ctrl show ?thesis by blast
qed

theorem interval_lower_bounds_nonnegative_witness:
  "returned (compute_feasible_sets (table_wrapper 1 (\<lambda>i. (Val (- 1), Val 4)) (Val 0)) 1000 (0, []))
      = Some [(Val 0, Val 4), (Val 0, Val 4)]
   \<and> returned (compute_controllable_sets (table_wrapper 1 (\<lambda>i. (Val (- 1), Val 4)) (Val 0))
        (Val 1) (Val 2) (0, []))
      = Some [(Val 0, Val 4), (Val 1, Val 4)]
   \<and> fle (Val 0) (fst ([(Val 0, Val 4), (Val 0, Val 4)] ! 0))
   \<and> fle (Val 0) (fst ([(Val 0, Val 4), (Val 1, Val 4)] ! 0))"
proof -
  obtain s' where e1: "compute_feasible_sets (table_wrapper 1 (\<lambda>i. (Val (- 1), Val 4)) (Val 0))
       1000 (0, []) = Inr ([(Val 0, Val 4), (Val 0, Val 4)], s')"
    by (simp add: engine_eval eval_nat_numeral upt_rec)
  obtain t' where e2: "compute_controllable_sets (table_wrapper 1 (\<lambda>i. (Val (- 1), Val 4)) (Val 0))
        (Val 1) (Val 2) (0, []) = Inr ([(Val 0, Val 4), (Val 1, Val 4)], t')"
    by (simp add: engine_eval eval_nat_numeral)
  from interval_lower_bounds_nonnegative[of "table_wrapper 1 (\<lambda>i. (Val (- 1), Val 4)) (Val 0)"
      1000 "(0, [])" "[(Val 0, Val 4), (Val 0, Val 4)]" s' "Val 1" "Val 2" "(0, [])"
      "[(Val 0, Val 4), (Val 1, Val 4)]" t'] e1 e2
  show ?thesis by simp
qed

text \<open>
  C10: the clamp of the lower bound keeps emptiness. Every row of the array
  compute_feasible_sets returns is the clamp of the row the sweep left, every row
  i < N of the array compute_controllable_sets returns is the clamp of what _one_step
  returned for it; a row that holds a NaN still holds one after the clamp, and a row
  whose lower bound is NaN is unchanged, since NaN < 0 is false.
\<close>

theorem clamp_preserves_emptiness:
  "(compute_feasible_sets sw L s = Inr (X, s') \<longrightarrow>
      (\<exists>X1. feasible_sweep sw L s = Inr (X1, s') \<and> length X1 = length X \<and>
         (\<forall>i < length X. X ! i = clamp_low (X1 ! i)
             \<and> (nan_any (X1 ! i) \<longrightarrow> nan_any (X ! i))
             \<and> (isnan (fst (X1 ! i)) \<longrightarrow> X ! i = X1 ! i))))
   \<and> (compute_controllable_sets sw sdmin sdmax t = Inr (K, t') \<longrightarrow>
      (\<forall>i < get_no_stages sw. \<exists>s1 s2 res.
          one_step sw i (K ! (i + 1)) s1 = Inr (res, s2) \<and> K ! i = clamp_low res
             \<and> (nan_any res \<longrightarrow> nan_any (K ! i))
             \<and> (isnan (fst res) \<longrightarrow> K ! i = res)))
   \<and> clamp_low (NaN, NaN) = (NaN, NaN) \<and> \<not> flt NaN (Val 0)"
proof -
  have feas: "\<exists>X1. feasible_sweep sw L s = Inr (X1, s') \<and> length X1 = length X \<and>
         (\<forall>i < length X. X ! i = clamp_low (X1 ! i)
             \<and> (nan_any (X1 ! i) \<longrightarrow> nan_any (X ! i))
             \<and> (isnan (fst (X1 ! i)) \<longrightarrow> X ! i = X1 ! i))"
    if r: "compute_feasible_sets sw L s = Inr (X, s')"
  proof -
    from feasible_result[OF r] obtain X1 where
      sweep: "feasible_sweep sw L s = Inr (X1, s')" and
      len1: "length X1 = get_no_stages sw + 1" and
      len: "length X = get_no_stages sw + 1" and
      rows: "\<forall>i \<le> get_no_stages sw. X ! i = clamp_low (X1 ! i)"
      by blast
    from rows len have "\<forall>i < length X. X ! i = clamp_low (X1 ! i)
             \<and> (nan_any (X1 ! i) \<longrightarrow> nan_any (X ! i))
             \<and> (isnan (fst (X1 ! i)) \<longrightarrow> X ! i = X1 ! i)"
      by (simp add: clamp_low_nan_any clamp_low_nan)
    with sweep len1 len show ?thesis by auto
  qed
  have ctrl: "\<forall>i < get_no_stages sw. \<exists>s1 s2 res.
          one_step sw i (K ! (i + 1)) s1 = Inr (res, s2) \<and> K ! i = clamp_low res
             \<and> (nan_any res \<longrightarrow> nan_any (K ! i))
             \<and> (isnan (fst res) \<longrightarrow> K ! i = res)"
    if r: "compute_controllable_sets sw sdmin sdmax t = Inr (K, t')"
  proof (intro allI impI)
    fix i assume "i < get_no_stages sw"
    with ccs_result[OF r] obtain s1 s2 res where
      o: "one_step sw i (K ! (i + 1)) s1 = Inr (res, s2)" and k: "K ! i = clamp_low res"
      by blast
    from k have "(nan_any res \<longrightarrow> nan_any (K ! i)) \<and> (isnan (fst res) \<longrightarrow> K ! i = res)"
      by (simp add: clamp_low_nan_any clamp_low_nan)
    with o k show "\<exists>s1 s2 res.
          one_step sw i (K ! (i + 1)) s1 = Inr (res, s2) \<and> K ! i = clamp_low res
             \<and> (nan_any res \<longrightarrow> nan_any (K ! i))
             \<and> (isnan (fst res) \<longrightarrow> K ! i = res)"
      by blast
  qed
  have "clamp_low (NaN, NaN) = (NaN, NaN)" by (simp add: clamp_low_def)
  with feas ctrl show ?thesis by auto
qed

theorem clamp_preserves_emptiness_witness:
  "returned (compute_feasible_sets
       (table_wrapper 1 (\<lambda>i. if i = 0 then (NaN, NaN) else (Val (- 1), Val 4)) (Val 0)) 1000 (0, []))
      = Some [(NaN, NaN), (Val 0, Val 4)]
   \<and> returned (feasible_sweep
       (table_wrapper 1 (\<lambda>i. if i = 0 then (NaN, NaN) else (Val (- 1), Val 4)) (Val 0)) 1000 (0, []))
      = Some [(NaN, NaN), (Val (- 1), Val 4)]
   \<and> returned (compute_controllable_sets
       (table_wrapper 1 (\<lambda>i. if i = 0 then (NaN, NaN) else (Val (- 1), Val 4)) (Val 0))
       (Val 0) (Val 0) (0, []))
      = Some [(NaN, NaN), (Val 0, Val 0)]
   \<and> nan_any ([(NaN, NaN), (Val 0, Val 4)] ! 0)
   \<and> nan_any ([(NaN, NaN), (Val 0, Val 0)] ! 0)"
proof -
  let ?sw = "table_wrapper 1 (\<lambda>i. if i = 0 then (NaN, NaN) else (Val (- 1), Val 4)) (Val 0)"
  obtain s' where e1: "compute_feasible_sets ?sw 1000 (0, []) = Inr ([(NaN, NaN), (Val 0, Val 4)], s')"
    by (simp add: engine_eval eval_nat_numeral upt_rec)
  obtain s1 where e0: "feasible_sweep ?sw 1000 (0, []) = Inr ([(NaN, NaN), (Val (- 1), Val 4)], s1)"
    by (simp add: engine_eval eval_nat_numeral upt_rec)
  obtain t' where e2: "compute_controllable_sets ?sw (Val 0) (Val 0) (0, [])
       = Inr ([(NaN, NaN), (Val 0, Val 0)], t')"
    by (simp add: engine_eval eval_nat_numeral)
  from clamp_preserves_emptiness[of ?sw 1000 "(0, [])" "[(NaN, NaN), (Val 0, Val 4)]" s'
      "Val 0" "Val 0" "(0, [])" "[(NaN, NaN), (Val 0, Val 0)]" t'] e0 e1 e2
  show ?thesis by (auto simp: nan_any_def)
qed

text \<open>
  C3 as stated fails: with K = [[0, 4], [0, 0]] free of NaN and sd_start = 10^200, the
  start state sd_start * sd_start lies above K[0] by more than SMALL, yet
  compute_parameterization does not return (None, None, None): the square of line
  178 raises OverflowError.
\<close>

theorem start_square_overflows:
  "fle (Val 0) (Val (10 ^ 200)) \<and> fle (Val 0) (Val 0)
   \<and> returned (compute_controllable_sets (table_wrapper 1 (\<lambda>i. (Val 0, Val 4)) (Val 0))
         (Val 0) (Val 0) (0, [])) = Some [(Val 0, Val 4), (Val 0, Val 0)]
   \<and> start_rejected (1 / 100000) [(Val 0, Val 4), (Val 0, Val 0)]
        (fmul (Val (10 ^ 200)) (Val (10 ^ 200)))
   \<and> raised (compute_parameterization (table_wrapper 1 (\<lambda>i. (Val 0, Val 4)) (Val 0)) (1 / 100000)
         (forward_step (table_wrapper 1 (\<lambda>i. (Val 0, Val 4)) (Val 0)) g_max_u)
         (Val (10 ^ 200)) (Val 0) (0, [])) = Some OverflowError
   \<and> returned (compute_parameterization (table_wrapper 1 (\<lambda>i. (Val 0, Val 4)) (Val 0)) (1 / 100000)
         (forward_step (table_wrapper 1 (\<lambda>i. (Val 0, Val 4)) (Val 0)) g_max_u)
         (Val (10 ^ 200)) (Val 0) (0, [])) = None"
proof -
  let ?sw = "table_wrapper 1 (\<lambda>i. (Val 0, Val 4)) (Val 0)"
  have pos: "fle (Val 0) (Val (10 ^ 200))" "fle (Val 0) (Val 0)" by simp_all
  obtain s1 where e: "compute_controllable_sets ?sw (Val 0) (Val 0) (0, [])
       = Inr ([(Val 0, Val 4), (Val 0, Val 0)], s1)"
    by (simp add: engine_eval eval_nat_numeral)
  have nn: "\<not> isnan_any [(Val 0, Val 4), (Val 0, Val 0)]"
    by (simp add: isnan_any_def nan_any_def)
  have r: "start_rejected (1 / 100000) [(Val 0, Val 4), (Val 0, Val 0)]
        (fmul (Val (10 ^ 200)) (Val (10 ^ 200)))"
    by (simp add: start_rejected_def)
  have p: "compute_parameterization ?sw (1 / 100000) (forward_step ?sw g_max_u)
         (Val (10 ^ 200)) (Val 0) (0, []) = Inl (OverflowError, s1)"
    by (rule param_overflow[OF pos e nn py_square_huge])
  from e have e': "returned (compute_controllable_sets ?sw (Val 0) (Val 0) (0, []))
       = Some [(Val 0, Val 4), (Val 0, Val 0)]"
    by (simp only: returned.simps)
  from p have p1: "raised (compute_parameterization ?sw (1 / 100000) (forward_step ?sw g_max_u)
         (Val (10 ^ 200)) (Val 0) (0, [])) = Some OverflowError"
    by (simp only: raised.simps)
  from p have p2: "returned (compute_parameterization ?sw (1 / 100000) (forward_step ?sw g_max_u)
         (Val (10 ^ 200)) (Val 0) (0, [])) = None"
    by (simp only: returned.simps)
  from pos e' r p1 p2 show ?thesis by blast
qed

text \<open>
  C3, amended: for start and end velocities \<ge> 0, with K the array
  compute_controllable_sets returns for the terminal bounds (sd_end, sd_end),
  compute_parameterization returns (None, None, None) exactly when some row of K holds
  a NaN, or the square of sd_start stays in the float range and lies below K[0] or
  above it by more than SMALL; it then returns with the session as the backward pass
  left it, so no forward setup and no forward solve is issued. When K holds no NaN and
  the square of sd_start overflows, the call raises OverflowError, again with the
  session as the backward pass left it.
\<close>

theorem infeasible_start_reporting:
  assumes "fle (Val 0) sd_start" "fle (Val 0) sd_end"
    and "compute_controllable_sets sw sd_end sd_end s = Inr (K, s1)"
  shows "((\<exists>s'. compute_parameterization sw SMALL fstep sd_start sd_end s = Inr (NoneTriple, s'))
           = ((\<exists>i \<le> get_no_stages sw. nan_any (K ! i))
               \<or> (py_square sd_start = Inr (fmul sd_start sd_start)
                   \<and> start_rejected SMALL K (fmul sd_start sd_start))))
       \<and> ((\<exists>i \<le> get_no_stages sw. nan_any (K ! i))
               \<or> (py_square sd_start = Inr (fmul sd_start sd_start)
                   \<and> start_rejected SMALL K (fmul sd_start sd_start))
           \<longrightarrow> compute_parameterization sw SMALL fstep sd_start sd_end s = Inr (NoneTriple, s1))
       \<and> (\<not> (\<exists>i \<le> get_no_stages sw. nan_any (K ! i)) \<and> py_square sd_start = Inl OverflowError
           \<longrightarrow> compute_parameterization sw SMALL fstep sd_start sd_end s
                 = Inl (OverflowError, s1))"
proof -
  from ccs_result[OF assms(3)] have "length K = get_no_stages sw + 1" by blast
  then have nan: "isnan_any K = (\<exists>i \<le> get_no_stages sw. nan_any (K ! i))"
    by (simp add: isnan_any_iff less_Suc_eq_le)
  have sq: "(\<exists>x. py_square sd_start = Inr x \<and> start_rejected SMALL K x)
      = (py_square sd_start = Inr (fmul sd_start sd_start)
           \<and> start_rejected SMALL K (fmul sd_start sd_start))"
    using py_square_Inr[of sd_start] by auto
  have raise: "parameterization_profile sw SMALL fstep sd_start sd_end s = Inl (OverflowError, s1)
      \<Longrightarrow> compute_parameterization sw SMALL fstep sd_start sd_end s = Inl (OverflowError, s1)"
    by (simp add: compute_parameterization_def)
  from profile_none[OF assms, of SMALL fstep] show ?thesis
    unfolding nan sq by (simp add: param_none raise)
qed

theorem infeasible_start_reporting_witness:
  "fle (Val 0) (Val 3) \<and> fle (Val 0) (Val 0)
   \<and> returned (compute_controllable_sets (table_wrapper 1 (\<lambda>i. (Val 0, Val 4)) (Val 0))
         (Val 0) (Val 0) (0, [])) = Some [(Val 0, Val 4), (Val 0, Val 0)]
   \<and> py_square (Val 3) = Inr (fmul (Val 3) (Val 3))
   \<and> start_rejected (1 / 100000) [(Val 0, Val 4), (Val 0, Val 0)] (fmul (Val 3) (Val 3))
   \<and> returned (compute_parameterization (table_wrapper 1 (\<lambda>i. (Val 0, Val 4)) (Val 0)) (1 / 100000)
         (forward_step (table_wrapper 1 (\<lambda>i. (Val 0, Val 4)) (Val 0)) g_max_u)
         (Val 3) (Val 0) (0, [])) = Some NoneTriple
   \<and> session_of (compute_parameterization (table_wrapper 1 (\<lambda>i. (Val 0, Val 4)) (Val 0)) (1 / 100000)
         (forward_step (table_wrapper 1 (\<lambda>i. (Val 0, Val 4)) (Val 0)) g_max_u)
         (Val 3) (Val 0) (0, []))
      = session_of (compute_controllable_sets (table_wrapper 1 (\<lambda>i. (Val 0, Val 4)) (Val 0))
         (Val 0) (Val 0) (0, []))
   \<and> fle (Val 0) (Val (10 ^ 200)) \<and> py_square (Val (10 ^ 200)) = Inl OverflowError
   \<and> raised (compute_parameterization (table_wrapper 1 (\<lambda>i. (Val 0, Val 4)) (Val 0)) (1 / 100000)
         (forward_step (table_wrapper 1 (\<lambda>i. (Val 0, Val 4)) (Val 0)) g_max_u)
         (Val (10 ^ 200)) (Val 0) (0, [])) = Some OverflowError"
proof -
  let ?sw = "table_wrapper 1 (\<lambda>i. (Val 0, Val 4)) (Val 0)"
  obtain s1 where e: "compute_controllable_sets ?sw (Val 0) (Val 0) (0, [])
       = Inr ([(Val 0, Val 4), (Val 0, Val 0)], s1)"
    by (simp add: engine_eval eval_nat_numeral)
  have sq: "py_square (Val 3) = Inr (fmul (Val 3) (Val 3))" by (simp add: py_square_small)
  have r: "start_rejected (1 / 100000) [(Val 0, Val 4), (Val 0, Val 0)] (fmul (Val 3) (Val 3))"
    by (simp add: start_rejected_def)
  have ov: "py_square (Val (10 ^ 200)) = Inl OverflowError" by (rule py_square_huge)
  have "\<not> isnan_any [(Val 0, Val 4), (Val 0, Val 0)]"
    by (simp add: isnan_any_def nan_any_def)
  then have nn: "\<not> (\<exists>i \<le> get_no_stages ?sw. nan_any ([(Val 0, Val 4), (Val 0, Val 0)] ! i))"
    by (simp add: isnan_any_iff stages_table_wrapper less_Suc_eq_le)
  have pos: "fle (Val 0) (Val (10 ^ 200))" "fle (Val 0) (Val 0)" by simp_all
  from infeasible_start_reporting[of "Val 3" "Val 0" ?sw "(0, [])" _ s1 "1 / 100000"
      "forward_step ?sw g_max_u", OF _ _ e] sq r e
  have small: "fle (Val 0) (Val 3) \<and> fle (Val 0) (Val 0)
   \<and> returned (compute_controllable_sets ?sw (Val 0) (Val 0) (0, []))
        = Some [(Val 0, Val 4), (Val 0, Val 0)]
   \<and> py_square (Val 3) = Inr (fmul (Val 3) (Val 3))
   \<and> start_rejected (1 / 100000) [(Val 0, Val 4), (Val 0, Val 0)] (fmul (Val 3) (Val 3))
   \<and> returned (compute_parameterization ?sw (1 / 100000) (forward_step ?sw g_max_u)
         (Val 3) (Val 0) (0, [])) = Some NoneTriple
   \<and> session_of (compute_parameterization ?sw (1 / 100000) (forward_step ?sw g_max_u)
         (Val 3) (Val 0) (0, []))
      = session_of (compute_controllable_sets ?sw (Val 0) (Val 0) (0, []))"
    by simp
  from infeasible_start_reporting[of "Val (10 ^ 200)" "Val 0" ?sw "(0, [])" _ s1 "1 / 100000"
      "forward_step ?sw g_max_u", OF pos e] nn ov
  have "compute_parameterization ?sw (1 / 100000) (forward_step ?sw g_max_u)
         (Val (10 ^ 200)) (Val 0) (0, []) = Inl (OverflowError, s1)"
    by blast
  then have big: "raised (compute_parameterization ?sw (1 / 100000) (forward_step ?sw g_max_u)
         (Val (10 ^ 200)) (Val 0) (0, [])) = Some OverflowError"
    by (simp only: raised.simps)
  from small pos(1) ov big show ?thesis by blast
qed

text \<open>
  C9 as stated fails: a backend that never raises and returns arrays of one entry
  makes compute_feasible_sets and compute_controllable_sets raise IndexError when they
  read entry 1 of the first result, after the setup and one solve and with no
  teardown; and a _forward_step that hands back an empty array makes
  compute_parameterization raise IndexError inside the forward session.
\<close>

theorem short_result_skips_teardown:
  "raised (compute_feasible_sets short_wrapper 1000 (0, [])) = Some IndexError
   \<and> map is_solve (snd (session_of (compute_feasible_sets short_wrapper 1000 (0, []))))
        = [False, True]
   \<and> Close \<notin> set (snd (session_of (compute_feasible_sets short_wrapper 1000 (0, []))))
   \<and> \<not> bracketed (snd (session_of (compute_feasible_sets short_wrapper 1000 (0, []))))
   \<and> raised (compute_controllable_sets short_wrapper (Val 0) (Val 0) (0, [])) = Some IndexError
   \<and> map is_solve (snd (session_of (compute_controllable_sets short_wrapper
        (Val 0) (Val 0) (0, [])))) = [False, True]
   \<and> \<not> bracketed (snd (session_of (compute_controllable_sets short_wrapper
        (Val 0) (Val 0) (0, []))))
   \<and> raised (compute_parameterization (table_wrapper 1 (\<lambda>i. (Val 0, Val 4)) (Val 0)) (1 / 100000)
        (\<lambda>i x Kn t. ([], t)) (Val 0) (Val 0) (0, [])) = Some IndexError
   \<and> map is_solve (snd (session_of (compute_parameterization
        (table_wrapper 1 (\<lambda>i. (Val 0, Val 4)) (Val 0)) (1 / 100000)
        (\<lambda>i x Kn t. ([], t)) (Val 0) (Val 0) (0, []))))
        = [False, True, True, False, False]
   \<and> \<not> bracketed (snd (session_of (compute_parameterization
        (table_wrapper 1 (\<lambda>i. (Val 0, Val 4)) (Val 0)) (1 / 100000)
        (\<lambda>i x Kn t. ([], t)) (Val 0) (Val 0) (0, []))))"
  by (simp add: engine_eval forward_eval short_wrapper_def bracketed_def
        eval_nat_numeral upt_rec)

text \<open>
  C9, amended: for a wrapper whose solves never raise and return one value per
  variable, the operations each entry point invokes on the wrapper form complete
  sessions: a setup, then solves only, then the teardown. compute_feasible_sets runs
  one session; compute_controllable_sets runs one or, when its assertion fails or a
  square overflows, none; compute_parameterization runs the backward session and,
  unless it returns or raises between the two, the forward session, for every
  _forward_step that invokes solves only and hands back one value per variable.
\<close>

theorem solves_inside_sessions:
  assumes "wf_wrapper sw" "issues_only_solves sw fstep"
  shows "(\<exists>X s' ss. compute_feasible_sets sw L s = Inr (X, s')
            \<and> snd s' = snd s @ Setup # ss @ [Close] \<and> (\<forall>e \<in> set ss. is_solve e)
            \<and> bracketed (Setup # ss @ [Close]))
       \<and> (\<exists>es. snd (session_of (compute_controllable_sets sw sdmin sdmax s)) = snd s @ es
            \<and> bracketed es)
       \<and> (\<exists>es. snd (session_of (compute_parameterization sw SMALL fstep sd_start sd_end s))
                  = snd s @ es
            \<and> bracketed es)"
proof -
  from feasible_bracketed[OF assms(1), of L s] obtain X s' ss where
    "compute_feasible_sets sw L s = Inr (X, s')" and
    "snd s' = snd s @ Setup # ss @ [Close]" and ss: "\<forall>e \<in> set ss. is_solve e"
    by blast
  with bracketed_session[OF ss] have feas:
    "\<exists>X s' ss. compute_feasible_sets sw L s = Inr (X, s')
            \<and> snd s' = snd s @ Setup # ss @ [Close] \<and> (\<forall>e \<in> set ss. is_solve e)
            \<and> bracketed (Setup # ss @ [Close])"
    by blast
  let ?P = "parameterization_profile sw SMALL fstep sd_start sd_end s"
  have prof: "\<exists>es. snd (session_of ?P) = snd s @ es \<and> bracketed es"
  proof (cases "fge sd_end (Val 0) \<and> fge sd_start (Val 0)")
    case False
    then have "?P = Inl (AssertionError, s)"
      by (simp add: parameterization_profile_def)
    then show ?thesis by (simp add: bracketed_def)
  next
    case True
    show ?thesis
    proof (cases "compute_controllable_sets sw sd_end sd_end s")
      case (Inl a)
      obtain e t where a: "a = (e, t)" by (cases a)
      with Inl True have "?P = Inl (e, t)" by (simp add: parameterization_profile_def)
      with Inl a ccs_bracketed[OF assms(1), of sd_end sd_end s] show ?thesis by simp
    next
      case (Inr b)
      obtain K s1 where b: "b = (K, s1)" by (cases b)
      with Inr have c: "compute_controllable_sets sw sd_end sd_end s = Inr (K, s1)" by simp
      from ccs_bracketed[OF assms(1), of sd_end sd_end s] c obtain es1 where
        l1: "snd s1 = snd s @ es1" and b1: "bracketed es1" by auto
      from True have pos: "fle (Val 0) sd_start" "fle (Val 0) sd_end" by (simp_all add: fge_def)
      note pn = profile_none[OF pos c, of SMALL fstep]
      show ?thesis
      proof (cases "isnan_any K \<or> (\<exists>x. py_square sd_start = Inr x \<and> start_rejected SMALL K x)")
        case stop: True
        with pn have "?P = Inr (None, s1)" by blast
        with l1 b1 show ?thesis by simp
      next
        case go: False
        show ?thesis
        proof (cases "py_square sd_start")
          case (Inl e)
          with py_square_Inl[OF Inl] go pn have "?P = Inl (OverflowError, s1)" by simp
          with l1 b1 show ?thesis by simp
        next
          case sq: (Inr x)
          with go have acc: "\<not> isnan_any K" "\<not> start_rejected SMALL K x" by simp_all
          from assms(1) have nv: "\<not> get_no_vars sw < 2" by (simp add: wf_wrapper_def)
          have "\<forall>i \<in> set [0 ..< get_no_stages sw]. i < get_no_stages sw" by simp
          from forward_loop_returns[OF assms this] obtain r s2 es2 where
            f: "forward_loop sw fstep K (get_deltas sw) [0 ..< get_no_stages sw]
                  (zeros (get_no_stages sw))
                  ((zeros (get_no_stages sw + 1))[0 := x])
                  (replicate (get_no_stages sw) (zeros (get_no_vars sw - 2)))
                  (call_setup sw s1) = Inr (r, s2)" and
            l2: "snd s2 = snd (call_setup sw s1) @ es2" and
            ss2: "\<forall>e \<in> set es2. is_solve e"
            by blast
          from True c sq acc nv f have "?P = Inr (Some r, call_close sw s2)"
            by (simp add: parameterization_profile_def start_rejected_def Let_def)
          moreover from l1 l2 have
            "snd (call_close sw s2) = snd s @ (es1 @ (Setup # es2 @ [Close]))"
            by (simp add: call_setup_def call_close_def)
          moreover have "bracketed (es1 @ (Setup # es2 @ [Close]))"
            using b1 bracketed_session[OF ss2] by (rule bracketed_append)
          ultimately show ?thesis by (metis session_of.simps(2))
        qed
      qed
    qed
  qed
  then have param: "\<exists>es. snd (session_of (compute_parameterization sw SMALL fstep
                                   sd_start sd_end s)) = snd s @ es \<and> bracketed es"
    by (simp add: param_session)
  from feas ccs_bracketed[OF assms(1)] param show ?thesis by blast
qed

theorem solves_inside_sessions_witness:
  "wf_wrapper (table_wrapper 1 (\<lambda>i. (Val 0, Val 4)) (Val 0))
   \<and> issues_only_solves (table_wrapper 1 (\<lambda>i. (Val 0, Val 4)) (Val 0))
        (forward_step (table_wrapper 1 (\<lambda>i. (Val 0, Val 4)) (Val 0)) g_max_u)
   \<and> bracketed (snd (session_of (compute_feasible_sets
         (table_wrapper 1 (\<lambda>i. (Val 0, Val 4)) (Val 0)) 1000 (0, []))))
   \<and> bracketed (snd (session_of (compute_controllable_sets
         (table_wrapper 1 (\<lambda>i. (Val 0, Val 4)) (Val 0)) (Val 0) (Val 0) (0, []))))
   \<and> bracketed (snd (session_of (compute_parameterization
         (table_wrapper 1 (\<lambda>i. (Val 0, Val 4)) (Val 0)) (1 / 100000)
         (forward_step (table_wrapper 1 (\<lambda>i. (Val 0, Val 4)) (Val 0)) g_max_u)
         (Val 0) (Val 0) (0, []))))
   \<and> map is_solve (snd (session_of (compute_parameterization
         (table_wrapper 1 (\<lambda>i. (Val 0, Val 4)) (Val 0)) (1 / 100000)
         (forward_step (table_wrapper 1 (\<lambda>i. (Val 0, Val 4)) (Val 0)) g_max_u)
         (Val 0) (Val 0) (0, []))))
      = [False, True, True, False, False, True, False]"
proof -
  let ?sw = "table_wrapper 1 (\<lambda>i. (Val 0, Val 4)) (Val 0)"
  have ev: "map is_solve (snd (session_of (compute_parameterization ?sw (1 / 100000)
         (forward_step ?sw g_max_u) (Val 0) (Val 0) (0, []))))
      = [False, True, True, False, False, True, False]"
    by (simp add: engine_eval forward_eval eval_nat_numeral upt_rec)
  have wf: "wf_wrapper ?sw" by (rule wf_table_wrapper)
  have ok: "issues_only_solves ?sw (forward_step ?sw g_max_u)"
    by (rule forward_step_issues_only_solves[OF wf])
  from solves_inside_sessions[OF wf ok, of 1000 "(0, [])" "Val 0" "Val 0" "1 / 100000"
      "Val 0" "Val 0"] ev wf ok
  show ?thesis by auto
qed

text \<open>
  C1: a run of compute_parameterization on one stage whose forward solve fails with
  the array (NaN, NaN). The test \<^verbatim>\<open>optim_res[0] is None\<close> does not hold for NaN, so the
  else branch runs: us[0] is NaN, v_vec[0] is the empty row, and xs[1] is the number
  min(K[1].high, max(K[1].low, NaN)) = K[1].low = 0, returned as sd_vec[1] = 0.
\<close>

theorem forward_pass_nan_solve_keeps_number:
  "returned (compute_controllable_sets (table_wrapper 1 (\<lambda>i. (Val 0, Val 4)) NaN)
       (Val 0) (Val 0) (0, []))
     = Some [(Val 0, Val 4), (Val 0, Val 0)]
   \<and> fst (forward_step (table_wrapper 1 (\<lambda>i. (Val 0, Val 4)) NaN) g_max_u
         0 (Val 0) (Val 0, Val 0) (0, []))
     = [PyFloat NaN, PyFloat NaN]
   \<and> returned (parameterization_profile (table_wrapper 1 (\<lambda>i. (Val 0, Val 4)) NaN) (1 / 100000)
       (forward_step (table_wrapper 1 (\<lambda>i. (Val 0, Val 4)) NaN) g_max_u)
       (Val 0) (Val 0) (0, []))
     = Some (Some ([NaN], [Val 0, Val 0], [[]]))
   \<and> returned (compute_parameterization (table_wrapper 1 (\<lambda>i. (Val 0, Val 4)) NaN) (1 / 100000)
       (forward_step (table_wrapper 1 (\<lambda>i. (Val 0, Val 4)) NaN) g_max_u)
       (Val 0) (Val 0) (0, []))
     = Some (Arrays [NaN] [Val 0, Val 0] [[]])"
  by (simp add: engine_eval forward_eval eval_nat_numeral upt_rec)

text \<open>
  C2 as stated fails. At stage 0: with K[0] = [0, 0] and SMALL = 1/100000 the start
  velocity 1/1000 is accepted, and xs[0] = 1/1000000 lies outside K[0]. At a later
  stage: when the solves leave K[1] = [1.000001, 1], lower end above upper end, the
  clamp gives xs[1] = 1, which is not within K[1]. And a forward step that returns
  None leaves xs[1] undefined.
\<close>

theorem forward_states_outside_sets:
  "returned (compute_controllable_sets (table_wrapper 1 (\<lambda>i. (Val 0, Val 0)) (Val 0))
       (Val 0) (Val 0) (0, []))
     = Some [(Val 0, Val 0), (Val 0, Val 0)]
   \<and> returned (parameterization_profile (table_wrapper 1 (\<lambda>i. (Val 0, Val 0)) (Val 0)) (1 / 100000)
       (forward_step (table_wrapper 1 (\<lambda>i. (Val 0, Val 0)) (Val 0)) g_max_u)
       (Val (1 / 1000)) (Val 0) (0, []))
     = Some (Some ([Val 0], [Val (1 / 1000000), Val 0], [[]]))
   \<and> returned (compute_parameterization (table_wrapper 1 (\<lambda>i. (Val 0, Val 0)) (Val 0)) (1 / 100000)
       (forward_step (table_wrapper 1 (\<lambda>i. (Val 0, Val 0)) (Val 0)) g_max_u)
       (Val (1 / 1000)) (Val 0) (0, []))
     = Some (Arrays [Val 0] (map fsqrt [Val (1 / 1000000), Val 0]) [[]])
   \<and> \<not> inside ([(Val 0, Val 0), (Val 0, Val 0)] ! 0) ([Val (1 / 1000000), Val 0] ! 0)
   \<and> returned (compute_controllable_sets
       (table_wrapper 2 (\<lambda>i. if i = 1 then (Val (1000001 / 1000000), Val 1) else (Val 0, Val 4)) (Val 0))
       (Val 0) (Val 0) (0, []))
     = Some [(Val 0, Val 4), (Val (1000001 / 1000000), Val 1), (Val 0, Val 0)]
   \<and> returned (parameterization_profile
       (table_wrapper 2 (\<lambda>i. if i = 1 then (Val (1000001 / 1000000), Val 1) else (Val 0, Val 4)) (Val 0))
       (1 / 100000)
       (forward_step
          (table_wrapper 2 (\<lambda>i. if i = 1 then (Val (1000001 / 1000000), Val 1) else (Val 0, Val 4)) (Val 0))
          g_max_u)
       (Val 0) (Val 0) (0, []))
     = Some (Some ([Val 0, Val 0], [Val 0, Val 1, Val 0], [[], []]))
   \<and> \<not> inside ([(Val 0, Val 4), (Val (1000001 / 1000000), Val 1), (Val 0, Val 0)] ! 1)
          ([Val 0, Val 1, Val 0] ! 1)
   \<and> returned (parameterization_profile (table_wrapper 1 (\<lambda>i. (Val 0, Val 4)) (Val 0)) (1 / 100000)
       (\<lambda>i x Kn t. ([PyNone, PyNone], t)) (Val 0) (Val 0) (0, []))
     = Some (Some ([NaN], [Val 0, NaN], [[]]))
   \<and> \<not> inside (Val 0, Val 0) NaN"
  by (simp add: engine_eval forward_eval inside_def eval_nat_numeral upt_rec)

text \<open>
  C2, amended: when compute_parameterization returns arrays, sd_vec is the square
  root of an array xs of N + 1 entries in which xs[0] = sd_start * sd_start lies within
  K[0] widened by SMALL on both sides, and every xs[i + 1] is either the undefined
  marker NaN, after a forward step whose first entry was None, or lies within K[i + 1]
  whenever K[i + 1].low \<le> K[i + 1].high.
\<close>

theorem parameterization_states_near_sets:
  assumes "compute_parameterization sw SMALL fstep sd_start sd_end s = Inr (Arrays sdd sd v, s')"
    and "compute_controllable_sets sw sd_end sd_end s = Inr (K, s1)"
  shows "\<exists>xs. parameterization_profile sw SMALL fstep sd_start sd_end s = Inr (Some (sdd, xs, v), s')
       \<and> sd = map fsqrt xs \<and> length xs = get_no_stages sw + 1
       \<and> xs ! 0 = fmul sd_start sd_start
       \<and> fle (fst (K ! 0)) (fadd (xs ! 0) (Val SMALL))
       \<and> fle (xs ! 0) (fadd (snd (K ! 0)) (Val SMALL))
       \<and> (\<forall>i < get_no_stages sw. stage_ok fstep K i (xs ! (i + 1)))"
proof -
  define N where "N = get_no_stages sw"
  define xs0 where "xs0 = (zeros (N + 1))[0 := fmul sd_start sd_start]"
  have len0: "length xs0 = N + 1" by (simp add: xs0_def zeros_def del: replicate.simps)
  have hd0: "xs0 ! 0 = fmul sd_start sd_start"
    by (simp add: xs0_def zeros_def del: replicate.simps)
  from assms(1) obtain xs where
    prof: "parameterization_profile sw SMALL fstep sd_start sd_end s = Inr (Some (sdd, xs, v), s')" and
    sd: "sd = map fsqrt xs"
    by (auto simp: param_arrays)
  from profile_some[OF prof assms(2)] obtain s2 where
    pos: "fle (Val 0) sd_start" and nonan: "\<not> isnan_any K" and
    acc: "\<not> start_rejected SMALL K (fmul sd_start sd_start)" and
    loop: "forward_loop sw fstep K (get_deltas sw) [0 ..< N] (zeros N) xs0
              (replicate N (zeros (get_no_vars sw - 2))) (call_setup sw s1)
            = Inr ((sdd, xs, v), s2)"
    unfolding N_def xs0_def by blast
  from forward_loop_xs[OF loop] have
    len: "length xs = length xs0" and
    keep: "\<forall>j. (\<forall>i \<in> set [0 ..< N]. j \<noteq> i + 1) \<longrightarrow> xs ! j = xs0 ! j" and
    ok: "\<forall>i \<in> set [0 ..< N]. i + 1 < length xs0 \<longrightarrow> stage_ok fstep K i (xs ! (i + 1))"
    by simp_all
  from keep hd0 have x0: "xs ! 0 = fmul sd_start sd_start" by simp
  from ok len0 have stages: "\<forall>i < N. stage_ok fstep K i (xs ! (i + 1))" by simp
  from ccs_result[OF assms(2)] have "length K = N + 1" unfolding N_def by blast
  then obtain k0 ks where K: "K = k0 # ks" by (cases K) auto
  with nonan have "\<not> nan_any k0" by (simp add: isnan_any_def)
  from start_near[OF pos this] acc K x0 have
    "fle (fst (K ! 0)) (fadd (xs ! 0) (Val SMALL)) \<and> fle (xs ! 0) (fadd (snd (K ! 0)) (Val SMALL))"
    by simp
  with prof sd len len0 x0 stages show ?thesis unfolding N_def by auto
qed

theorem parameterization_states_near_sets_witness:
  "returned (compute_controllable_sets (table_wrapper 1 (\<lambda>i. (Val 0, Val 0)) (Val 0))
       (Val 0) (Val 0) (0, []))
     = Some [(Val 0, Val 0), (Val 0, Val 0)]
   \<and> returned (compute_parameterization (table_wrapper 1 (\<lambda>i. (Val 0, Val 0)) (Val 0)) (1 / 100000)
       (forward_step (table_wrapper 1 (\<lambda>i. (Val 0, Val 0)) (Val 0)) g_max_u)
       (Val (1 / 1000)) (Val 0) (0, []))
     = Some (Arrays [Val 0] (map fsqrt [Val (1 / 1000000), Val 0]) [[]])
   \<and> fle (fst ([(Val 0, Val 0), (Val 0, Val 0)] ! 0))
          (fadd ([Val (1 / 1000000), Val 0] ! 0) (Val (1 / 100000)))
   \<and> fle ([Val (1 / 1000000), Val 0] ! 0)
          (fadd (snd ([(Val 0, Val 0), (Val 0, Val 0)] ! 0)) (Val (1 / 100000)))
   \<and> stage_ok (forward_step (table_wrapper 1 (\<lambda>i. (Val 0, Val 0)) (Val 0)) g_max_u)
        [(Val 0, Val 0), (Val 0, Val 0)] 0 ([Val (1 / 1000000), Val 0] ! (0 + 1))"
proof -
  let ?sw = "table_wrapper 1 (\<lambda>i. (Val 0, Val 0)) (Val 0)"
  obtain s1 where e1: "compute_controllable_sets ?sw (Val 0) (Val 0) (0, [])
      = Inr ([(Val 0, Val 0), (Val 0, Val 0)], s1)"
    by (simp add: engine_eval eval_nat_numeral)
  obtain s' where e2: "compute_parameterization ?sw (1 / 100000) (forward_step ?sw g_max_u)
       (Val (1 / 1000)) (Val 0) (0, [])
     = Inr (Arrays [Val 0] (map fsqrt [Val (1 / 1000000), Val 0]) [[]], s')"
    by (simp add: engine_eval forward_eval eval_nat_numeral upt_rec)
  have e3: "returned (parameterization_profile ?sw (1 / 100000) (forward_step ?sw g_max_u)
       (Val (1 / 1000)) (Val 0) (0, []))
     = Some (Some ([Val 0], [Val (1 / 1000000), Val 0], [[]]))"
    by (simp add: engine_eval forward_eval eval_nat_numeral upt_rec)
  from parameterization_states_near_sets[OF e2 e1] obtain xs where
    p: "parameterization_profile ?sw (1 / 100000) (forward_step ?sw g_max_u)
       (Val (1 / 1000)) (Val 0) (0, []) = Inr (Some ([Val 0], xs, [[]]), s')" and
    f: "fle (fst ([(Val 0, Val 0), (Val 0, Val 0)] ! 0)) (fadd (xs ! 0) (Val (1 / 100000)))
       \<and> fle (xs ! 0) (fadd (snd ([(Val 0, Val 0), (Val 0, Val 0)] ! 0)) (Val (1 / 100000)))" and
    g: "\<forall>i < get_no_stages ?sw. stage_ok (forward_step ?sw g_max_u)
           [(Val 0, Val 0), (Val 0, Val 0)] i (xs ! (i + 1))"
    by blast
  from p e3 have xs: "xs = [Val (1 / 1000000), Val 0]" by simp
  from g have "stage_ok (forward_step ?sw g_max_u) [(Val 0, Val 0), (Val 0, Val 0)] 0 (xs ! (0 + 1))"
    by (simp add: stages_table_wrapper)
  with e1 e2 f xs show ?thesis by simp
qed

end
